theory Spec2Isabelle
  imports Main "HOL-Library.Word"
begin

section \<open>Data model of transaction.go\<close>

text \<open>
  Go's \<open>byte\<close> is an 8-bit word and a \<open>[]byte\<close> a list of them (a nil slice and an
  empty slice are both the empty list). \<open>uint64\<close> and \<open>uint\<close> are 64-bit words;
  \<open>int\<close> is the 64-bit two's-complement word of a 64-bit platform, read with
  \<open>sint\<close>, so that the conversions \<open>uint(x)\<close> and \<open>int(x)\<close> keep the bits.
\<close>

type_synonym byte = "8 word"
type_synonym bytes = "byte list"
type_synonym uint64 = "64 word"
type_synonym go_int = "64 word"

text \<open>
  Modelled from the spec: the declarations of \<open>Address\<close>, \<open>EmptyAddress\<close>,
  \<open>BytesToAddress\<close>, \<open>Identifier\<close> and \<open>BytesToID\<close> (address.go, identifier.go)
  are not among the sources. An address is the array \<open>[8]byte\<close>, an identifier the
  array \<open>[32]byte\<close> (the spec's 32-byte reference-block identifier); both are kept
  as byte lists whose length a well-formed transaction fixes. \<open>EmptyAddress\<close> is the
  zero value of the array, the spec's zero/empty sentinel address.
  \<open>BytesToAddress\<close> keeps the last 8 bytes and pads with zeros at the front,
  \<open>Bytes\<close> is the array as a slice;
  \<open>BytesToID\<close> copies the bytes to the front of a zeroed array.
\<close>

type_synonym Address = "byte list"
type_synonym Identifier = "byte list"

definition AddressLength :: nat where
  "AddressLength = 8"

definition EmptyAddress :: Address where
  "EmptyAddress = replicate AddressLength 0"

definition BytesToAddress :: "bytes \<Rightarrow> Address" where
  "BytesToAddress b =
     (let b' = (if length b > AddressLength then drop (length b - AddressLength) b else b)
      in replicate (AddressLength - length b') 0 @ b')"

definition Bytes :: "Address \<Rightarrow> bytes" where
  "Bytes a = a"

definition BytesToID :: "bytes \<Rightarrow> Identifier" where
  "BytesToID b = take 32 b @ replicate (32 - length b) 0"

record ProposalKey =
  pkAddress :: Address
  pkKeyIndex :: go_int
  pkSequenceNumber :: uint64

record TransactionSignature =
  Address :: Address
  SignerIndex :: go_int
  KeyIndex :: go_int
  Signature :: bytes

record Transaction =
  Script :: bytes
  Arguments :: "bytes list"
  ReferenceBlockID :: Identifier
  GasLimit :: uint64
  ProposalKey :: ProposalKey
  Payer :: Address
  Authorizers :: "Address list"
  PayloadSignatures :: "TransactionSignature list"
  EnvelopeSignatures :: "TransactionSignature list"

record payloadCanonicalForm =
  pcScript :: bytes
  pcArguments :: "bytes list"
  pcReferenceBlockID :: bytes
  pcGasLimit :: uint64
  pcProposalKeyAddress :: bytes
  pcProposalKeyIndex :: uint64
  pcProposalKeySequenceNumber :: uint64
  pcPayer :: bytes
  pcAuthorizers :: "bytes list"

record transactionSignatureCanonicalForm =
  scSignerIndex :: uint64
  scKeyIndex :: uint64
  scSignature :: bytes

record envelopeCanonicalForm =
  ecPayload :: payloadCanonicalForm
  ecPayloadSignatures :: "transactionSignatureCanonicalForm list"

record transactionCanonicalForm =
  tcPayload :: payloadCanonicalForm
  tcPayloadSignatures :: "transactionSignatureCanonicalForm list"
  tcEnvelopeSignatures :: "transactionSignatureCanonicalForm list"

text \<open>
  A Go panic is a value of its own, apart from the errors a function returns.
\<close>

datatype panic = IndexOutOfRange

definition DefaultTransactionGasLimit :: uint64 where
  "DefaultTransactionGasLimit = 9999"

definition NewTransaction :: Transaction where
  "NewTransaction =
     \<lparr>Script = [], Arguments = [], ReferenceBlockID = replicate 32 0,
      GasLimit = DefaultTransactionGasLimit,
      ProposalKey = \<lparr>pkAddress = EmptyAddress, pkKeyIndex = 0, pkSequenceNumber = 0\<rparr>,
      Payer = EmptyAddress, Authorizers = [],
      PayloadSignatures = [], EnvelopeSignatures = []\<rparr>"

section \<open>Signer index resolver\<close>

text \<open>
  \<open>signerList\<close> threads the pair of the slice \<open>signers\<close> and the set \<open>seen\<close>
  through the closure \<open>addSigner\<close>: first the proposer and the payer, each under its
  own test against \<open>EmptyAddress\<close>, then every authorizer with no test.
\<close>

definition addSigner :: "Address \<Rightarrow> Address list \<times> Address set \<Rightarrow> Address list \<times> Address set" where
  "addSigner address st =
     (case st of (signers, seen) \<Rightarrow>
        if address \<in> seen then (signers, seen)
        else (signers @ [address], insert address seen))"

definition signerList :: "Transaction \<Rightarrow> Address list" where
  "signerList t =
     (let st0 = ([], {});
          st1 = (if pkAddress (ProposalKey t) \<noteq> EmptyAddress
                 then addSigner (pkAddress (ProposalKey t)) st0 else st0);
          st2 = (if Payer t \<noteq> EmptyAddress then addSigner (Payer t) st1 else st1)
      in fst (foldl (\<lambda>st authorizer. addSigner authorizer st) st2 (Authorizers t)))"

text \<open>
  \<open>signerMap\<close> stores \<open>signers[signer] = i\<close> for every position of the signer list,
  in order, so a later position would overwrite an earlier one.
\<close>

definition setSigner :: "(Address \<rightharpoonup> go_int) \<Rightarrow> nat \<times> Address \<Rightarrow> (Address \<rightharpoonup> go_int)" where
  "setSigner signers p = (case p of (i, signer) \<Rightarrow> signers(signer \<mapsto> of_nat i))"

definition signerMap :: "Transaction \<Rightarrow> (Address \<rightharpoonup> go_int)" where
  "signerMap t = foldl setSigner Map.empty (enumerate 0 (signerList t))"

section \<open>Signature collection\<close>

definition lookupSignerIndex :: "(Address \<rightharpoonup> go_int) \<Rightarrow> Address \<Rightarrow> go_int" where
  "lookupSignerIndex m a = (case m a of Some signerIndex \<Rightarrow> signerIndex | None \<Rightarrow> - 1)"

definition refreshSignerIndex :: "Transaction \<Rightarrow> Transaction" where
  "refreshSignerIndex t =
     (let m = signerMap t;
          upd = (\<lambda>sg. sg\<lparr>SignerIndex := lookupSignerIndex m (Address sg)\<rparr>)
      in t\<lparr>PayloadSignatures := map upd (PayloadSignatures t),
            EnvelopeSignatures := map upd (EnvelopeSignatures t)\<rparr>)"

definition SetProposalKey :: "Address \<Rightarrow> go_int \<Rightarrow> uint64 \<Rightarrow> Transaction \<Rightarrow> Transaction" where
  "SetProposalKey address keyIndex sequenceNum t =
     refreshSignerIndex
       (t\<lparr>ProposalKey := \<lparr>pkAddress = address, pkKeyIndex = keyIndex,
                            pkSequenceNumber = sequenceNum\<rparr>\<rparr>)"

definition SetScript :: "bytes \<Rightarrow> Transaction \<Rightarrow> Transaction" where
  "SetScript script t = t\<lparr>Script := script\<rparr>"

definition SetReferenceBlockID :: "Identifier \<Rightarrow> Transaction \<Rightarrow> Transaction" where
  "SetReferenceBlockID blockID t = t\<lparr>ReferenceBlockID := blockID\<rparr>"

definition SetGasLimit :: "uint64 \<Rightarrow> Transaction \<Rightarrow> Transaction" where
  "SetGasLimit limit t = t\<lparr>GasLimit := limit\<rparr>"

definition SetPayer :: "Address \<Rightarrow> Transaction \<Rightarrow> Transaction" where
  "SetPayer address t = refreshSignerIndex (t\<lparr>Payer := address\<rparr>)"

definition AddAuthorizer :: "Address \<Rightarrow> Transaction \<Rightarrow> Transaction" where
  "AddAuthorizer address t = refreshSignerIndex (t\<lparr>Authorizers := Authorizers t @ [address]\<rparr>)"

definition AddRawArgument :: "bytes \<Rightarrow> Transaction \<Rightarrow> Transaction" where
  "AddRawArgument arg t = t\<lparr>Arguments := Arguments t @ [arg]\<rparr>"

definition createSignature :: "Transaction \<Rightarrow> Address \<Rightarrow> go_int \<Rightarrow> bytes \<Rightarrow> TransactionSignature" where
  "createSignature t address keyIndex sig =
     \<lparr>Address = address, SignerIndex = lookupSignerIndex (signerMap t) address,
      KeyIndex = keyIndex, Signature = sig\<rparr>"

text \<open>
  The order \<open>compareSignatures\<close> hands to \<open>sort.Slice\<close>: by signer index, then by
  key index, both compared as signed integers.
\<close>

definition compareSignatures :: "TransactionSignature \<Rightarrow> TransactionSignature \<Rightarrow> bool" where
  "compareSignatures sigA sigB =
     (if SignerIndex sigA = SignerIndex sigB then sint (KeyIndex sigA) < sint (KeyIndex sigB)
      else sint (SignerIndex sigA) < sint (SignerIndex sigB))"

text \<open>
  \<open>sort.Slice\<close> belongs to the Go library, not to this repository, and the library
  promises of it only that the slice ends up sorted by \<open>less\<close>; it does not promise
  that elements comparing equal keep their order, and its algorithm differs between
  releases of Go. The two insertion methods therefore take the sorting procedure as
  their first parameter, named \<open>sortSlice\<close> like the call it stands for, and the
  properties of the insertion path are proved for every procedure that returns a
  sorted rearrangement of its input (\<open>sortsSignatures\<close> below).

  \<open>insertionSort\<close> is the library's procedure of that name: each element in turn moves
  left while it is \<open>less\<close> than its left neighbour. It is all that \<open>sort.Slice\<close> runs on
  a slice of at most six elements (a longer slice first gets a pass that compares
  elements six apart, or is partitioned), so the sample transactions, which hold at
  most two signatures, are built with it. \<open>moveLeft\<close> works on the sorted prefix held
  in reverse, nearest neighbour first.
\<close>

type_synonym 'a sorter = "('a \<Rightarrow> 'a \<Rightarrow> bool) \<Rightarrow> 'a list \<Rightarrow> 'a list"

fun moveLeft :: "('a \<Rightarrow> 'a \<Rightarrow> bool) \<Rightarrow> 'a \<Rightarrow> 'a list \<Rightarrow> 'a list" where
  "moveLeft lt x [] = [x]"
| "moveLeft lt x (y # ys) = (if lt x y then y # moveLeft lt x ys else x # y # ys)"

definition insertionSort :: "'a sorter" where
  "insertionSort lt xs = rev (foldl (\<lambda>sorted x. moveLeft lt x sorted) [] xs)"

definition AddPayloadSignature ::
  "TransactionSignature sorter \<Rightarrow> Address \<Rightarrow> go_int \<Rightarrow> bytes \<Rightarrow> Transaction \<Rightarrow> Transaction" where
  "AddPayloadSignature sortSlice address keyIndex sig t =
     (let s = createSignature t address keyIndex sig
      in refreshSignerIndex
           (t\<lparr>PayloadSignatures := sortSlice compareSignatures (PayloadSignatures t @ [s])\<rparr>))"

definition AddEnvelopeSignature ::
  "TransactionSignature sorter \<Rightarrow> Address \<Rightarrow> go_int \<Rightarrow> bytes \<Rightarrow> Transaction \<Rightarrow> Transaction" where
  "AddEnvelopeSignature sortSlice address keyIndex sig t =
     (let s = createSignature t address keyIndex sig
      in refreshSignerIndex
           (t\<lparr>EnvelopeSignatures := sortSlice compareSignatures (EnvelopeSignatures t @ [s])\<rparr>))"

text \<open>The invariant the claims speak of: ascending by (SignerIndex, KeyIndex).\<close>

definition sigLeq :: "TransactionSignature \<Rightarrow> TransactionSignature \<Rightarrow> bool" where
  "sigLeq a b = (\<not> compareSignatures b a)"

definition sortedSignatures :: "TransactionSignature list \<Rightarrow> bool" where
  "sortedSignatures sigs = sorted_wrt sigLeq sigs"

text \<open>
  What the insertion path needs of \<open>sort.Slice\<close>: the result is sorted and holds
  every element of the input as often as the input does.
\<close>

definition sortsSignatures :: "TransactionSignature sorter \<Rightarrow> bool" where
  "sortsSignatures sortSlice =
     (\<forall>xs. sortedSignatures (sortSlice compareSignatures xs)
           \<and> (\<forall>x. count_list (sortSlice compareSignatures xs) x = count_list xs x))"

section \<open>Canonical form builder\<close>

text \<open>
  The loop over the arguments reads \<open>arg[len(arg)-1]\<close>: an index of -1, a panic, on an
  empty argument. It stores the shortened slice back into \<open>t.Arguments\<close>, so the
  function returns the transaction as the call leaves it beside the form.
\<close>

fun stripArguments :: "bytes list \<Rightarrow> panic + bytes list" where
  "stripArguments [] = Inr []"
| "stripArguments (arg # args) =
     (if length arg = 0 then Inl IndexOutOfRange
      else (case stripArguments args of
              Inl p \<Rightarrow> Inl p
            | Inr args' \<Rightarrow>
                Inr ((if arg ! (length arg - 1) = 10 then take (length arg - 1) arg else arg) # args')))"

definition payloadCanonicalForm :: "Transaction \<Rightarrow> panic + payloadCanonicalForm \<times> Transaction" where
  "payloadCanonicalForm t =
     (let authorizers = map Bytes (Authorizers t)
      in case stripArguments (Arguments t) of
           Inl p \<Rightarrow> Inl p
         | Inr args \<Rightarrow>
             (let t' = t\<lparr>Arguments := args\<rparr>
              in Inr (\<lparr>pcScript = Script t',
                       pcArguments = Arguments t',
                       pcReferenceBlockID = ReferenceBlockID t',
                       pcGasLimit = GasLimit t',
                       pcProposalKeyAddress = Bytes (pkAddress (ProposalKey t')),
                       pcProposalKeyIndex = pkKeyIndex (ProposalKey t'),
                       pcProposalKeySequenceNumber = pkSequenceNumber (ProposalKey t'),
                       pcPayer = Bytes (Payer t'),
                       pcAuthorizers = authorizers\<rparr>, t')))"

definition canonicalForm :: "TransactionSignature \<Rightarrow> transactionSignatureCanonicalForm" where
  "canonicalForm s =
     \<lparr>scSignerIndex = SignerIndex s, scKeyIndex = KeyIndex s, scSignature = Signature s\<rparr>"

definition transactionSignatureFromCanonicalForm :: "transactionSignatureCanonicalForm \<Rightarrow> TransactionSignature" where
  "transactionSignatureFromCanonicalForm v =
     \<lparr>Address = EmptyAddress, SignerIndex = scSignerIndex v, KeyIndex = scKeyIndex v,
      Signature = scSignature v\<rparr>"

definition signaturesList_canonicalForm :: "TransactionSignature list \<Rightarrow> transactionSignatureCanonicalForm list" where
  "signaturesList_canonicalForm s = map canonicalForm s"

definition envelopeCanonicalForm :: "Transaction \<Rightarrow> panic + envelopeCanonicalForm \<times> Transaction" where
  "envelopeCanonicalForm t =
     (case payloadCanonicalForm t of
        Inl p \<Rightarrow> Inl p
      | Inr (payload, t') \<Rightarrow>
          Inr (\<lparr>ecPayload = payload,
                ecPayloadSignatures = signaturesList_canonicalForm (PayloadSignatures t')\<rparr>, t'))"

section \<open>Binary codec: encoding\<close>

text \<open>
  The codec is the RLP package of go-ethereum, a library outside this repository. Its
  encoder is written out per Go type as the package's reflection selects it: a byte
  slice (\<open>encodeString\<close>), an unsigned integer (\<open>encodeUint\<close>), and a struct or a slice
  of other elements as a list of the encodings of its elements (\<open>encodeList\<close>).
  \<open>putint\<close> is the big-endian integer with no leading zero byte, \<open>puthead\<close> the size
  tag. Sizes are \<open>uint64\<close> in Go; they are natural numbers here, and the theorems
  about decoding say where they need a size below \<open>2 ^ 64\<close>.
\<close>

fun putint :: "nat \<Rightarrow> bytes" where
  "putint i = (if i < 256 then [of_nat i] else putint (i div 256) @ [of_nat (i mod 256)])"

declare putint.simps [simp del]

definition puthead :: "nat \<Rightarrow> nat \<Rightarrow> nat \<Rightarrow> bytes" where
  "puthead smalltag largetag sz =
     (if sz < 56 then [of_nat (smalltag + sz)]
      else (let sizebytes = putint sz in of_nat (largetag + length sizebytes) # sizebytes))"

definition encodeString :: "bytes \<Rightarrow> bytes" where
  "encodeString b =
     (if length b = 1 \<and> unat (hd b) \<le> 0x7F then b
      else puthead 0x80 0xB7 (length b) @ b)"

definition encodeUint :: "uint64 \<Rightarrow> bytes" where
  "encodeUint i =
     (if i = 0 then [0x80]
      else if unat i < 128 then [of_nat (unat i)]
      else (let s = putint (unat i) in of_nat (0x80 + length s) # s))"

definition encodeList :: "bytes list \<Rightarrow> bytes" where
  "encodeList items = (let body = concat items in puthead 0xC0 0xF7 (length body) @ body)"

definition encode_payloadCanonicalForm :: "payloadCanonicalForm \<Rightarrow> bytes" where
  "encode_payloadCanonicalForm p =
     encodeList
       [encodeString (pcScript p),
        encodeList (map encodeString (pcArguments p)),
        encodeString (pcReferenceBlockID p),
        encodeUint (pcGasLimit p),
        encodeString (pcProposalKeyAddress p),
        encodeUint (pcProposalKeyIndex p),
        encodeUint (pcProposalKeySequenceNumber p),
        encodeString (pcPayer p),
        encodeList (map encodeString (pcAuthorizers p))]"

definition encode_transactionSignatureCanonicalForm :: "transactionSignatureCanonicalForm \<Rightarrow> bytes" where
  "encode_transactionSignatureCanonicalForm v =
     encodeList [encodeUint (scSignerIndex v), encodeUint (scKeyIndex v),
                 encodeString (scSignature v)]"

definition encode_signatures :: "transactionSignatureCanonicalForm list \<Rightarrow> bytes" where
  "encode_signatures vs = encodeList (map encode_transactionSignatureCanonicalForm vs)"

definition encode_envelopeCanonicalForm :: "envelopeCanonicalForm \<Rightarrow> bytes" where
  "encode_envelopeCanonicalForm e =
     encodeList [encode_payloadCanonicalForm (ecPayload e),
                 encode_signatures (ecPayloadSignatures e)]"

definition encode_transactionCanonicalForm :: "transactionCanonicalForm \<Rightarrow> bytes" where
  "encode_transactionCanonicalForm c =
     encodeList [encode_payloadCanonicalForm (tcPayload c),
                 encode_signatures (tcPayloadSignatures c),
                 encode_signatures (tcEnvelopeSignatures c)]"

section \<open>Encode entry points\<close>

text \<open>
  Modelled from the spec: \<open>mustRLPEncode\<close> (encode.go) is not among the sources. It
  serializes a canonical form with the codec and panics when the codec returns an
  error; the codec has none for byte slices, unsigned integers, and structs and slices
  of these, so the entry points fail only where \<open>payloadCanonicalForm\<close> panics. Each
  returns the bytes and the transaction as the call leaves it.
\<close>

definition PayloadMessage :: "Transaction \<Rightarrow> panic + bytes \<times> Transaction" where
  "PayloadMessage t =
     (case payloadCanonicalForm t of
        Inl p \<Rightarrow> Inl p
      | Inr (temp, t') \<Rightarrow> Inr (encode_payloadCanonicalForm temp, t'))"

definition EnvelopeMessage :: "Transaction \<Rightarrow> panic + bytes \<times> Transaction" where
  "EnvelopeMessage t =
     (case envelopeCanonicalForm t of
        Inl p \<Rightarrow> Inl p
      | Inr (temp, t') \<Rightarrow> Inr (encode_envelopeCanonicalForm temp, t'))"

definition Encode :: "Transaction \<Rightarrow> panic + bytes \<times> Transaction" where
  "Encode t =
     (case payloadCanonicalForm t of
        Inl p \<Rightarrow> Inl p
      | Inr (payload, t') \<Rightarrow>
          Inr (encode_transactionCanonicalForm
                 \<lparr>tcPayload = payload,
                  tcPayloadSignatures = signaturesList_canonicalForm (PayloadSignatures t'),
                  tcEnvelopeSignatures = signaturesList_canonicalForm (EnvelopeSignatures t')\<rparr>,
               t'))"

section \<open>Binary codec: the decoding stream\<close>

text \<open>
  The stream of the RLP package reads from a \<open>bytes.Reader\<close>, so its input limit is
  the length of the data. For every open list it keeps the number of bytes still to
  read; the model keeps those bytes themselves: \<open>input\<close> holds the unread bytes of the
  innermost open list (of the whole reader at top level), and \<open>outer\<close> holds, for
  every open list, the unread bytes that follow it. \<open>Kind\<close> reads the size tag and
  caches it for the call that follows; here it inspects the tag and leaves it in place,
  returning the kind, the size of the content, and the length of the tag. A value must
  fit into what is left of its list (of the input, at top level) behind its tag, and
  the first error ends the decoding, as every caller below returns on it.
\<close>

datatype Kind = Byte | String | List

datatype rlp_error =
    EOL | EOF
  | ErrExpectedString | ErrExpectedList
  | ErrCanonInt | ErrCanonSize
  | ErrElemTooLarge | ErrValueTooLarge
  | errNotInList | errNotAtEOL | errUintOverflow
  | TooFewElements
  | UnexpectedDecodingType

record Stream =
  input :: bytes
  outer :: "bytes list"

definition NewStream :: "bytes \<Rightarrow> Stream" where
  "NewStream r = \<lparr>input = r, outer = []\<rparr>"

definition be_uint :: "bytes \<Rightarrow> nat" where
  "be_uint bs = foldl (\<lambda>a b. a * 256 + unat b) 0 bs"

definition tooLarge :: "Stream \<Rightarrow> rlp_error" where
  "tooLarge s = (if outer s = [] then ErrValueTooLarge else ErrElemTooLarge)"

definition readUint :: "Stream \<Rightarrow> nat \<Rightarrow> bytes \<Rightarrow> rlp_error + nat" where
  "readUint s sz bs =
     (if sz = 0 then Inr 0
      else if length bs < sz then Inl (tooLarge s)
      else if sz = 1 then Inr (unat (hd bs))
      else if hd bs = 0 then Inl ErrCanonSize
      else Inr (be_uint (take sz bs)))"

definition readKind :: "Stream \<Rightarrow> rlp_error + Kind \<times> nat \<times> nat" where
  "readKind s =
     (case input s of
        [] \<Rightarrow> Inl EOF
      | b # bs \<Rightarrow>
          (let v = unat b in
           if v < 0x80 then Inr (Byte, 0, 1)
           else if v < 0xB8 then Inr (String, v - 0x80, 1)
           else if v < 0xC0 then
             (case readUint s (v - 0xB7) bs of
                Inl e \<Rightarrow> Inl e
              | Inr sz \<Rightarrow> if sz < 56 then Inl ErrCanonSize
                            else Inr (String, sz, 1 + (v - 0xB7)))
           else if v < 0xF8 then Inr (List, v - 0xC0, 1)
           else
             (case readUint s (v - 0xF7) bs of
                Inl e \<Rightarrow> Inl e
              | Inr sz \<Rightarrow> if sz < 56 then Inl ErrCanonSize
                            else Inr (List, sz, 1 + (v - 0xF7)))))"

definition Stream_Kind :: "Stream \<Rightarrow> rlp_error + Kind \<times> nat \<times> nat" where
  "Stream_Kind s =
     (if outer s \<noteq> [] \<and> input s = [] then Inl EOL
      else (case readKind s of
              Inl e \<Rightarrow> Inl e
            | Inr (kind, sz, tag) \<Rightarrow>
                if sz > length (input s) - tag then Inl (tooLarge s)
                else Inr (kind, sz, tag)))"

definition Stream_Bytes :: "Stream \<Rightarrow> rlp_error + bytes \<times> Stream" where
  "Stream_Bytes s =
     (case Stream_Kind s of
        Inl e \<Rightarrow> Inl e
      | Inr (kind, sz, tag) \<Rightarrow>
          (case kind of
             Byte \<Rightarrow> Inr ([hd (input s)], s\<lparr>input := drop 1 (input s)\<rparr>)
           | String \<Rightarrow>
               (let b = take sz (drop tag (input s)) in
                if sz = 1 \<and> unat (hd b) < 128 then Inl ErrCanonSize
                else Inr (b, s\<lparr>input := drop (tag + sz) (input s)\<rparr>))
           | List \<Rightarrow> Inl ErrExpectedString))"

definition Stream_uint :: "nat \<Rightarrow> Stream \<Rightarrow> rlp_error + nat \<times> Stream" where
  "Stream_uint maxbits s =
     (case Stream_Kind s of
        Inl e \<Rightarrow> Inl e
      | Inr (kind, sz, tag) \<Rightarrow>
          (case kind of
             Byte \<Rightarrow>
               (if hd (input s) = 0 then Inl ErrCanonInt
                else Inr (unat (hd (input s)), s\<lparr>input := drop 1 (input s)\<rparr>))
           | String \<Rightarrow>
               (if sz > maxbits div 8 then Inl errUintOverflow
                else (case readUint s sz (drop tag (input s)) of
                        Inl e \<Rightarrow> Inl (if e = ErrCanonSize then ErrCanonInt else e)
                      | Inr v \<Rightarrow>
                          if sz > 0 \<and> v < 128 then Inl ErrCanonSize
                          else Inr (v, s\<lparr>input := drop (tag + sz) (input s)\<rparr>)))
           | List \<Rightarrow> Inl ErrExpectedString))"

definition Stream_List :: "Stream \<Rightarrow> rlp_error + nat \<times> Stream" where
  "Stream_List s =
     (case Stream_Kind s of
        Inl e \<Rightarrow> Inl e
      | Inr (kind, sz, tag) \<Rightarrow>
          if kind \<noteq> List then Inl ErrExpectedList
          else Inr (sz, \<lparr>input = take sz (drop tag (input s)),
                           outer = drop (tag + sz) (input s) # outer s\<rparr>))"

definition Stream_ListEnd :: "Stream \<Rightarrow> rlp_error + Stream" where
  "Stream_ListEnd s =
     (case outer s of
        [] \<Rightarrow> Inl errNotInList
      | r # rs \<Rightarrow> if input s \<noteq> [] then Inl errNotAtEOL else Inr \<lparr>input = r, outer = rs\<rparr>)"

section \<open>Binary codec: decoders by type\<close>

text \<open>
  The decoders the RLP package builds for the Go types of the canonical forms: a byte
  slice, an unsigned integer of 64 bits, a slice of elements (a list read until \<open>EOL\<close>,
  then \<open>ListEnd\<close>), and a struct (a list of its fields in order, where \<open>EOL\<close> at a
  field is the error "too few elements", then \<open>ListEnd\<close>).
\<close>

definition bindE :: "'e + 'a \<Rightarrow> ('a \<Rightarrow> 'e + 'b) \<Rightarrow> 'e + 'b" where
  "bindE m f = (case m of Inl e \<Rightarrow> Inl e | Inr x \<Rightarrow> f x)"

definition decodeByteSlice :: "Stream \<Rightarrow> rlp_error + bytes \<times> Stream" where
  "decodeByteSlice s = Stream_Bytes s"

definition decodeUint :: "Stream \<Rightarrow> rlp_error + uint64 \<times> Stream" where
  "decodeUint s = bindE (Stream_uint 64 s) (\<lambda>(num, s'). Inr (of_nat num, s'))"

definition field :: "(Stream \<Rightarrow> rlp_error + 'a \<times> Stream) \<Rightarrow> Stream \<Rightarrow> rlp_error + 'a \<times> Stream" where
  "field dec s =
     (case dec s of
        Inl e \<Rightarrow> Inl (if e = EOL then TooFewElements else e)
      | Inr r \<Rightarrow> Inr r)"

lemma Stream_Bytes_consumes:
  "Stream_Bytes s = Inr (b, s') \<Longrightarrow> length (input s') < length (input s) \<and> outer s' = outer s"
  by (auto simp: Stream_Bytes_def Stream_Kind_def readKind_def Let_def
           split: sum.splits prod.splits Kind.splits if_splits list.splits)

lemma Stream_uint_consumes:
  "Stream_uint n s = Inr (v, s') \<Longrightarrow> length (input s') < length (input s) \<and> outer s' = outer s"
  by (auto simp: Stream_uint_def Stream_Kind_def readKind_def Let_def
           split: sum.splits prod.splits Kind.splits if_splits list.splits)

lemma Stream_List_enters:
  "Stream_List s = Inr (n, s1) \<Longrightarrow>
     \<exists>r. outer s1 = r # outer s \<and> length r < length (input s)"
  by (auto simp: Stream_List_def Stream_Kind_def readKind_def Let_def
           split: sum.splits prod.splits Kind.splits if_splits list.splits)

lemma Stream_ListEnd_leaves:
  "Stream_ListEnd s = Inr s' \<Longrightarrow> outer s = input s' # outer s'"
  by (auto simp: Stream_ListEnd_def split: list.splits if_splits)

function decodeSliceElems_bytes :: "Stream \<Rightarrow> rlp_error + bytes list \<times> Stream" where
  "decodeSliceElems_bytes s =
     (case decodeByteSlice s of
        Inl e \<Rightarrow> if e = EOL then Inr ([], s) else Inl e
      | Inr (b, s') \<Rightarrow>
          (case decodeSliceElems_bytes s' of
             Inl e \<Rightarrow> Inl e
           | Inr (bs, s'') \<Rightarrow> Inr (b # bs, s'')))"
  by pat_completeness auto
termination
  by (relation "measure (\<lambda>s. length (input s))")
     (auto simp: decodeByteSlice_def dest: Stream_Bytes_consumes)

declare decodeSliceElems_bytes.simps [simp del]

definition decodeListSlice_bytes :: "Stream \<Rightarrow> rlp_error + bytes list \<times> Stream" where
  "decodeListSlice_bytes s =
     bindE (Stream_List s) (\<lambda>(sz, s1).
       if sz = 0 then bindE (Stream_ListEnd s1) (\<lambda>s2. Inr ([], s2))
       else bindE (decodeSliceElems_bytes s1) (\<lambda>(val, s2).
              bindE (Stream_ListEnd s2) (\<lambda>s3. Inr (val, s3))))"

definition decode_transactionSignatureCanonicalForm ::
    "Stream \<Rightarrow> rlp_error + transactionSignatureCanonicalForm \<times> Stream" where
  "decode_transactionSignatureCanonicalForm s =
     bindE (Stream_List s) (\<lambda>(_, s0).
     bindE (field decodeUint s0) (\<lambda>(signerIndex, s1).
     bindE (field decodeUint s1) (\<lambda>(keyIndex, s2).
     bindE (field decodeByteSlice s2) (\<lambda>(signature, s3).
     bindE (Stream_ListEnd s3) (\<lambda>s4.
       Inr (\<lparr>scSignerIndex = signerIndex, scKeyIndex = keyIndex,
             scSignature = signature\<rparr>, s4))))))"

lemma field_consumes:
  assumes "\<And>x s'. dec s = Inr (x, s') \<Longrightarrow> length (input s') < length (input s) \<and> outer s' = outer s"
      and "field dec s = Inr (x, s')"
  shows "length (input s') < length (input s) \<and> outer s' = outer s"
  using assms by (auto simp: field_def split: sum.splits)

lemma decodeUint_consumes:
  "decodeUint s = Inr (v, s') \<Longrightarrow> length (input s') < length (input s) \<and> outer s' = outer s"
  by (auto simp: decodeUint_def bindE_def split: sum.splits dest: Stream_uint_consumes)

lemma decode_transactionSignatureCanonicalForm_consumes:
  assumes "decode_transactionSignatureCanonicalForm s = Inr (v, s')"
  shows "length (input s') < length (input s)"
proof -
  from assms obtain n s0 x1 s1 x2 s2 x3 s3 where
    l: "Stream_List s = Inr (n, s0)" and
    f1: "field decodeUint s0 = Inr (x1, s1)" and
    f2: "field decodeUint s1 = Inr (x2, s2)" and
    f3: "field decodeByteSlice s2 = Inr (x3, s3)" and
    e: "Stream_ListEnd s3 = Inr s'"
    by (auto simp: decode_transactionSignatureCanonicalForm_def bindE_def
             split: sum.splits prod.splits)
  from l obtain r where r: "outer s0 = r # outer s" "length r < length (input s)"
    using Stream_List_enters by blast
  have "outer s1 = outer s0"
    using field_consumes [OF _ f1] decodeUint_consumes by blast
  moreover have "outer s2 = outer s1"
    using field_consumes [OF _ f2] decodeUint_consumes by blast
  moreover have "outer s3 = outer s2"
    using field_consumes [OF _ f3] Stream_Bytes_consumes unfolding decodeByteSlice_def by blast
  ultimately have "outer s3 = r # outer s" using r by simp
  with Stream_ListEnd_leaves [OF e] have "input s' = r" by simp
  with r show ?thesis by simp
qed

function decodeSliceElems_signatures ::
    "Stream \<Rightarrow> rlp_error + transactionSignatureCanonicalForm list \<times> Stream" where
  "decodeSliceElems_signatures s =
     (case decode_transactionSignatureCanonicalForm s of
        Inl e \<Rightarrow> if e = EOL then Inr ([], s) else Inl e
      | Inr (v, s') \<Rightarrow>
          (case decodeSliceElems_signatures s' of
             Inl e \<Rightarrow> Inl e
           | Inr (vs, s'') \<Rightarrow> Inr (v # vs, s'')))"
  by pat_completeness auto
termination
  by (relation "measure (\<lambda>s. length (input s))")
     (auto dest: decode_transactionSignatureCanonicalForm_consumes)

declare decodeSliceElems_signatures.simps [simp del]

definition decodeListSlice_signatures ::
    "Stream \<Rightarrow> rlp_error + transactionSignatureCanonicalForm list \<times> Stream" where
  "decodeListSlice_signatures s =
     bindE (Stream_List s) (\<lambda>(sz, s1).
       if sz = 0 then bindE (Stream_ListEnd s1) (\<lambda>s2. Inr ([], s2))
       else bindE (decodeSliceElems_signatures s1) (\<lambda>(val, s2).
              bindE (Stream_ListEnd s2) (\<lambda>s3. Inr (val, s3))))"

definition decode_payloadCanonicalForm :: "Stream \<Rightarrow> rlp_error + payloadCanonicalForm \<times> Stream" where
  "decode_payloadCanonicalForm s =
     bindE (Stream_List s) (\<lambda>(_, s0).
     bindE (field decodeByteSlice s0) (\<lambda>(script, s1).
     bindE (field decodeListSlice_bytes s1) (\<lambda>(arguments, s2).
     bindE (field decodeByteSlice s2) (\<lambda>(referenceBlockID, s3).
     bindE (field decodeUint s3) (\<lambda>(gasLimit, s4).
     bindE (field decodeByteSlice s4) (\<lambda>(proposalKeyAddress, s5).
     bindE (field decodeUint s5) (\<lambda>(proposalKeyIndex, s6).
     bindE (field decodeUint s6) (\<lambda>(proposalKeySequenceNumber, s7).
     bindE (field decodeByteSlice s7) (\<lambda>(payer, s8).
     bindE (field decodeListSlice_bytes s8) (\<lambda>(authorizers, s9).
     bindE (Stream_ListEnd s9) (\<lambda>s10.
       Inr (\<lparr>pcScript = script,
             pcArguments = arguments,
             pcReferenceBlockID = referenceBlockID,
             pcGasLimit = gasLimit,
             pcProposalKeyAddress = proposalKeyAddress,
             pcProposalKeyIndex = proposalKeyIndex,
             pcProposalKeySequenceNumber = proposalKeySequenceNumber,
             pcPayer = payer,
             pcAuthorizers = authorizers\<rparr>, s10))))))))))))"

section \<open>Decoding a transaction\<close>

definition emptyPayload :: payloadCanonicalForm where
  "emptyPayload =
     \<lparr>pcScript = [], pcArguments = [], pcReferenceBlockID = [], pcGasLimit = 0,
      pcProposalKeyAddress = [], pcProposalKeyIndex = 0, pcProposalKeySequenceNumber = 0,
      pcPayer = [], pcAuthorizers = []\<rparr>"

definition decodeTransaction :: "bytes \<Rightarrow> rlp_error + transactionCanonicalForm" where
  "decodeTransaction transactionMessage =
     (let s = NewStream transactionMessage;
          temp = \<lparr>tcPayload = emptyPayload, tcPayloadSignatures = [],
                  tcEnvelopeSignatures = []\<rparr>
      in bindE (Stream_Kind s) (\<lambda>(kind, _, _).
         if kind \<noteq> List then Inl UnexpectedDecodingType
         else bindE (Stream_List s) (\<lambda>(_, s1).
         bindE (Stream_Kind s1) (\<lambda>(kind1, _, _).
         if kind1 \<noteq> List then
           bindE (decode_payloadCanonicalForm (NewStream transactionMessage)) (\<lambda>(txPayload, _).
             Inr (temp\<lparr>tcPayload := txPayload\<rparr>))
         else
           bindE (decode_payloadCanonicalForm s1) (\<lambda>(txPayload, s2).
           bindE (decodeListSlice_signatures s2) (\<lambda>(payloadSigs, s3).
           (case Stream_Kind s3 of
              Inl err \<Rightarrow>
                if err = EOL
                then Inr (temp\<lparr>tcPayload := txPayload, tcPayloadSignatures := payloadSigs\<rparr>)
                else Inl err
            | Inr _ \<Rightarrow>
                bindE (decodeListSlice_signatures s3) (\<lambda>(envelopeSigs, _).
                  Inr (temp\<lparr>tcPayload := txPayload, tcPayloadSignatures := payloadSigs,
                             tcEnvelopeSignatures := envelopeSigs\<rparr>)))))))))"

text \<open>
  \<open>DecodeTransaction\<close> returns an error of the codec or a transaction; the index
  expression \<open>signers[SignerIndex]\<close>, with \<open>SignerIndex\<close> an \<open>int\<close>, panics when the
  index is negative or not below the length of \<open>signers\<close>.
\<close>

datatype failure = Error rlp_error | Panic panic

fun resolveSignatures :: "Address list \<Rightarrow> transactionSignatureCanonicalForm list \<Rightarrow> panic + TransactionSignature list" where
  "resolveSignatures signers [] = Inr []"
| "resolveSignatures signers (sig # sigs) =
     (let sg = transactionSignatureFromCanonicalForm sig;
          i = sint (SignerIndex sg)
      in if i < 0 \<or> int (length signers) \<le> i then Inl IndexOutOfRange
         else (case resolveSignatures signers sigs of
                 Inl p \<Rightarrow> Inl p
               | Inr sgs \<Rightarrow> Inr (sg\<lparr>Address := signers ! nat i\<rparr> # sgs)))"

definition DecodeTransaction :: "bytes \<Rightarrow> failure + Transaction" where
  "DecodeTransaction transactionMessage =
     (case decodeTransaction transactionMessage of
        Inl err \<Rightarrow> Inl (Error err)
      | Inr temp \<Rightarrow>
          (let authorizers = map BytesToAddress (pcAuthorizers (tcPayload temp));
               t = \<lparr>Script = pcScript (tcPayload temp),
                    Arguments = pcArguments (tcPayload temp),
                    ReferenceBlockID = BytesToID (pcReferenceBlockID (tcPayload temp)),
                    GasLimit = pcGasLimit (tcPayload temp),
                    ProposalKey =
                      \<lparr>pkAddress = BytesToAddress (pcProposalKeyAddress (tcPayload temp)),
                       pkKeyIndex = pcProposalKeyIndex (tcPayload temp),
                       pkSequenceNumber = pcProposalKeySequenceNumber (tcPayload temp)\<rparr>,
                    Payer = BytesToAddress (pcPayer (tcPayload temp)),
                    Authorizers = authorizers,
                    PayloadSignatures = [], EnvelopeSignatures = []\<rparr>;
               signers = signerList t
           in case (if length (tcPayloadSignatures temp) > 0
                    then bindE (resolveSignatures signers (tcPayloadSignatures temp))
                           (\<lambda>payloadSignatures. Inr (t\<lparr>PayloadSignatures := payloadSignatures\<rparr>))
                    else Inr t) of
                Inl p \<Rightarrow> Inl (Panic p)
              | Inr t1 \<Rightarrow>
                  (case (if length (tcEnvelopeSignatures temp) > 0
                         then bindE (resolveSignatures signers (tcEnvelopeSignatures temp))
                                (\<lambda>envelopeSignatures. Inr (t1\<lparr>EnvelopeSignatures := envelopeSignatures\<rparr>))
                         else Inr t1) of
                     Inl p \<Rightarrow> Inl (Panic p)
                   | Inr t2 \<Rightarrow>
                       Inr (t2\<lparr>Arguments := (if length (Arguments t2) = 0 then [] else Arguments t2),
                                Script := (if length (Script t2) = 0 then [] else Script t2)\<rparr>))))"

section \<open>The signer list in the words of the specification\<close>

text \<open>
  The specification's signer list: proposer, then payer, then authorizers, each address
  once, the first occurrence winning. \<open>signerCandidates\<close> lists the roles in that
  order, with the test for the sentinel where the code has it; \<open>dedupFirst\<close> keeps the
  first occurrence of every element.
\<close>

definition signerCandidates :: "Transaction \<Rightarrow> Address list" where
  "signerCandidates t =
     (if pkAddress (ProposalKey t) \<noteq> EmptyAddress then [pkAddress (ProposalKey t)] else [])
     @ (if Payer t \<noteq> EmptyAddress then [Payer t] else [])
     @ Authorizers t"

fun dedupFirst :: "'a list \<Rightarrow> 'a list" where
  "dedupFirst [] = []"
| "dedupFirst (x # xs) = x # dedupFirst (removeAll x xs)"


section \<open>Sample transactions\<close>

definition addrA :: Address where "addrA = [0, 0, 0, 0, 0, 0, 0, 1]"
definition addrB :: Address where "addrB = [0, 0, 0, 0, 0, 0, 0, 2]"
definition addrC :: Address where "addrC = [0, 0, 0, 0, 0, 0, 0, 3]"

definition tx_roles :: Transaction where
  "tx_roles =
     AddAuthorizer addrB (AddAuthorizer addrC (AddAuthorizer addrA
       (SetPayer addrB (SetProposalKey addrA 0 5 NewTransaction))))"


definition tx_sentinel :: Transaction where
  "tx_sentinel = AddAuthorizer EmptyAddress NewTransaction"

definition tx_sentinel_roles :: Transaction where
  "tx_sentinel_roles =
     AddAuthorizer EmptyAddress (AddAuthorizer addrA (AddAuthorizer EmptyAddress
       (AddAuthorizer addrB (SetProposalKey addrA 0 5 NewTransaction))))"


definition tx_args :: Transaction where
  "tx_args = AddRawArgument [10] (AddRawArgument [0x7B, 0x7D] (AddRawArgument [0x7B, 0x7D, 10] NewTransaction))"


definition tx_empty_arg :: Transaction where
  "tx_empty_arg = AddRawArgument [] (AddRawArgument [0x7B, 10] NewTransaction)"

text \<open>
  A transaction whose one argument ends in a newline, and the payload message of it.
\<close>

definition tx_newline_arg :: Transaction where
  "tx_newline_arg = AddRawArgument [0x7B, 10] NewTransaction"

definition payload_newline_arg :: bytes where
  "payload_newline_arg =
     [248, 60, 128, 193, 123, 160, 0, 0, 0, 0, 0, 0, 0, 0, 0, 0, 0, 0, 0, 0, 0, 0, 0, 0, 0, 0, 0,
      0, 0, 0, 0, 0, 0, 0, 0, 0, 0, 0, 130, 39, 15, 136, 0, 0, 0, 0, 0, 0, 0, 0, 128, 128, 136, 0,
      0, 0, 0, 0, 0, 0, 0, 192]"


section \<open>Well-formed transactions and current signer indices\<close>

text \<open>
  The array types of Go fix the lengths that \<open>wellFormed\<close> states. A signature's
  cached signer index is current when it is a position of the signer list and the
  address at that position is the signature's. \<open>payloadTransaction\<close> is the
  transaction \<open>DecodeTransaction\<close> builds from a decoded payload before it resolves
  the signatures.
\<close>

definition wellFormed :: "Transaction \<Rightarrow> bool" where
  "wellFormed t =
     (length (ReferenceBlockID t) = 32
      \<and> length (pkAddress (ProposalKey t)) = AddressLength
      \<and> length (Payer t) = AddressLength
      \<and> list_all (\<lambda>a. length a = AddressLength) (Authorizers t))"

definition signerIndexCurrent :: "Transaction \<Rightarrow> TransactionSignature \<Rightarrow> bool" where
  "signerIndexCurrent t sg =
     (0 \<le> sint (SignerIndex sg)
      \<and> nat (sint (SignerIndex sg)) < length (signerList t)
      \<and> signerList t ! nat (sint (SignerIndex sg)) = Address sg)"

definition payloadTransaction :: "payloadCanonicalForm \<Rightarrow> Transaction" where
  "payloadTransaction p =
     \<lparr>Script = pcScript p, Arguments = pcArguments p,
      ReferenceBlockID = BytesToID (pcReferenceBlockID p), GasLimit = pcGasLimit p,
      ProposalKey =
        \<lparr>pkAddress = BytesToAddress (pcProposalKeyAddress p),
         pkKeyIndex = pcProposalKeyIndex p,
         pkSequenceNumber = pcProposalKeySequenceNumber p\<rparr>,
      Payer = BytesToAddress (pcPayer p),
      Authorizers = map BytesToAddress (pcAuthorizers p),
      PayloadSignatures = [], EnvelopeSignatures = []\<rparr>"

text \<open>
  The round-trip scenario of the specification: script \<open>transaction{}\<close>, one argument,
  a reference block of zeros ending in 1, gas limit 100, and the same address as
  proposer, payer and authorizer, with one payload signature; then its three encodings.
\<close>

definition tx_scenario :: Transaction where
  "tx_scenario =
     AddPayloadSignature insertionSort addrA 0 [9]
       (AddAuthorizer addrA (SetPayer addrA (SetProposalKey addrA 0 5
         (AddRawArgument [0x7B, 0x22, 0x74, 0x79, 0x70, 0x65, 0x22, 0x3A, 0x22, 0x49, 0x6E, 0x74,
                          0x22, 0x2C, 0x22, 0x76, 0x61, 0x6C, 0x75, 0x65, 0x22, 0x3A, 0x22, 0x31,
                          0x22, 0x7D]
           (SetGasLimit 100 (SetReferenceBlockID (replicate 31 0 @ [1])
             (SetScript [0x74, 0x72, 0x61, 0x6E, 0x73, 0x61, 0x63, 0x74, 0x69, 0x6F, 0x6E, 0x7B, 0x7D]
                NewTransaction)))))))"

definition tx_scenario_record :: Transaction where
  "tx_scenario_record =
     \<lparr>Script = [116, 114, 97, 110, 115, 97, 99, 116, 105, 111, 110, 123, 125],
      Arguments = [[123, 34, 116, 121, 112, 101, 34, 58, 34, 73, 110, 116, 34, 44, 34, 118, 97,
                    108, 117, 101, 34, 58, 34, 49, 34, 125]],
      ReferenceBlockID = [0, 0, 0, 0, 0, 0, 0, 0, 0, 0, 0, 0, 0, 0, 0, 0, 0, 0, 0, 0, 0, 0, 0, 0,
                          0, 0, 0, 0, 0, 0, 0, 1],
      GasLimit = 100,
      ProposalKey = \<lparr>pkAddress = [0, 0, 0, 0, 0, 0, 0, 1], pkKeyIndex = 0, pkSequenceNumber = 5\<rparr>,
      Payer = [0, 0, 0, 0, 0, 0, 0, 1],
      Authorizers = [[0, 0, 0, 0, 0, 0, 0, 1]],
      PayloadSignatures = [\<lparr>Address = [0, 0, 0, 0, 0, 0, 0, 1], SignerIndex = 0, KeyIndex = 0,
                            Signature = [9]\<rparr>],
      EnvelopeSignatures = []\<rparr>"

definition payload_scenario :: bytes where
  "payload_scenario =
     [248, 106, 141, 116, 114, 97, 110, 115, 97, 99, 116, 105, 111, 110, 123, 125, 219, 154, 123,
      34, 116, 121, 112, 101, 34, 58, 34, 73, 110, 116, 34, 44, 34, 118, 97, 108, 117, 101, 34,
      58, 34, 49, 34, 125, 160, 0, 0, 0, 0, 0, 0, 0, 0, 0, 0, 0, 0, 0, 0, 0, 0, 0, 0, 0, 0, 0, 0,
      0, 0, 0, 0, 0, 0, 0, 0, 0, 1, 100, 136, 0, 0, 0, 0, 0, 0, 0, 1, 128, 5, 136, 0, 0, 0, 0, 0,
      0, 0, 1, 201, 136, 0, 0, 0, 0, 0, 0, 0, 1]"








text \<open>
  Two signatures added under the signer list \<open>[addrA, addrB]\<close>, then a payer set that
  turns the signer list into \<open>[addrB, addrA]\<close>.
\<close>

definition tx_before_reindex :: Transaction where
  "tx_before_reindex =
     AddPayloadSignature insertionSort addrB 0 [8]
       (AddPayloadSignature insertionSort addrA 0 [7]
         (AddAuthorizer addrB (AddAuthorizer addrA NewTransaction)))"

definition tx_reindexed :: Transaction where
  "tx_reindexed = SetPayer addrB tx_before_reindex"

text \<open>
  An envelope message whose payload names no signer (proposer and payer decode to the
  sentinel, no authorizers) and whose one payload signature has signer index 0.
\<close>

definition msg_no_signer :: bytes where
  "msg_no_signer =
     [0xCF, 0xC9, 0x80, 0xC0, 0x80, 0x80, 0x80, 0x80, 0x80, 0x80, 0xC0, 0xC4, 0xC3, 0x80, 0x80, 0x80]"

section \<open>Properties of the signer list\<close>

lemma set_dedupFirst: "set (dedupFirst xs) = set xs"
  by (induction xs rule: dedupFirst.induct) auto

lemma distinct_dedupFirst: "distinct (dedupFirst xs)"
  by (induction xs rule: dedupFirst.induct) (auto simp: set_dedupFirst)

lemma dedupFirst_distinct: "distinct xs \<Longrightarrow> dedupFirst xs = xs"
  by (induction xs) (auto simp: removeAll_id)

lemma dedupFirst_seen:
  "y \<in> set xs \<Longrightarrow> dedupFirst (xs @ y # ys) = dedupFirst (xs @ ys)"
proof (induction xs arbitrary: ys rule: dedupFirst.induct)
  case 1
  then show ?case by simp
next
  case (2 x xs)
  show ?case
  proof (cases "y = x")
    case True
    then show ?thesis by simp
  next
    case False
    with "2.prems" have "y \<in> set (removeAll x xs)" by simp
    from "2.IH" [OF this] False show ?thesis by simp
  qed
qed

lemma foldl_addSigner:
  "distinct acc \<Longrightarrow>
     fst (foldl (\<lambda>st a. addSigner a st) (acc, set acc) ys) = dedupFirst (acc @ ys)"
proof (induction ys arbitrary: acc)
  case Nil
  then show ?case by (simp add: dedupFirst_distinct)
next
  case (Cons y ys)
  show ?case
  proof (cases "y \<in> set acc")
    case True
    with Cons show ?thesis by (simp add: addSigner_def dedupFirst_seen)
  next
    case False
    with Cons.prems have d: "distinct (acc @ [y])" by simp
    from Cons.IH [OF d] False show ?thesis by (simp add: addSigner_def)
  qed
qed

lemma signerList_dedupFirst: "signerList t = dedupFirst (signerCandidates t)"
proof -
  let ?p = "pkAddress (ProposalKey t)" and ?q = "Payer t"
  consider (none) "?p = EmptyAddress" "?q = EmptyAddress"
    | (p) "?p \<noteq> EmptyAddress" "?q = EmptyAddress"
    | (q) "?p = EmptyAddress" "?q \<noteq> EmptyAddress"
    | (same) "?p \<noteq> EmptyAddress" "?q \<noteq> EmptyAddress" "?p = ?q"
    | (both) "?p \<noteq> EmptyAddress" "?q \<noteq> EmptyAddress" "?p \<noteq> ?q"
    by blast
  then show ?thesis
  proof cases
    case none
    then show ?thesis
      using foldl_addSigner [of "[]" "Authorizers t"]
      by (simp add: signerList_def signerCandidates_def)
  next
    case p
    then show ?thesis
      using foldl_addSigner [of "[?p]" "Authorizers t"]
      by (simp add: signerList_def signerCandidates_def addSigner_def)
  next
    case q
    then show ?thesis
      using foldl_addSigner [of "[?q]" "Authorizers t"]
      by (simp add: signerList_def signerCandidates_def addSigner_def)
  next
    case same
    then show ?thesis
      using foldl_addSigner [of "[?p]" "Authorizers t"]
      by (simp add: signerList_def signerCandidates_def addSigner_def)
  next
    case both
    then show ?thesis
      using foldl_addSigner [of "[?p, ?q]" "Authorizers t"]
      by (simp add: signerList_def signerCandidates_def addSigner_def insert_commute)
  qed
qed

lemma foldl_signers_notin:
  "a \<notin> set xs \<Longrightarrow> foldl setSigner m (enumerate n xs) a = m a"
  by (induction xs arbitrary: m n) (auto simp: setSigner_def)

lemma foldl_signers_nth:
  "distinct xs \<Longrightarrow> i < length xs \<Longrightarrow>
     foldl setSigner m (enumerate n xs) (xs ! i) = Some (of_nat (n + i))"
proof (induction xs arbitrary: m n i)
  case Nil
  then show ?case by simp
next
  case (Cons x xs)
  show ?case
  proof (cases i)
    case 0
    with Cons.prems show ?thesis by (simp add: foldl_signers_notin) (simp add: setSigner_def)
  next
    case (Suc j)
    with Cons.prems Cons.IH [of j "setSigner m (n, x)" "Suc n"] show ?thesis by simp
  qed
qed

lemma signerMap_nth:
  "i < length (signerList t) \<Longrightarrow> signerMap t (signerList t ! i) = Some (of_nat i)"
  using foldl_signers_nth [of "signerList t" i Map.empty 0]
  by (simp add: signerMap_def signerList_dedupFirst distinct_dedupFirst)

lemma signerMap_notin:
  "a \<notin> set (signerList t) \<Longrightarrow> signerMap t a = None"
  by (simp add: signerMap_def foldl_signers_notin)


text \<open>
  Claim C4. \<open>signerList\<close> is the deduplicated ordered signer list: the proposer (when
  it is not the sentinel), then the payer (when it is not the sentinel), then the
  authorizers in order, each address once at its first occurrence. A proposer that is
  not the sentinel stands at position 0, occurs once, and has signer index 0 in
  \<open>signerMap\<close>, whatever the authorizers are. The list depends only on the proposer
  address, the payer and the authorizers.
\<close>

theorem signerList_first_occurrence:
  "signerList t = dedupFirst (signerCandidates t)
   \<and> distinct (signerList t)
   \<and> set (signerList t) = set (signerCandidates t)
   \<and> (pkAddress (ProposalKey t) \<noteq> EmptyAddress \<longrightarrow>
        signerList t ! 0 = pkAddress (ProposalKey t)
        \<and> count_list (signerList t) (pkAddress (ProposalKey t)) = 1
        \<and> signerMap t (pkAddress (ProposalKey t)) = Some 0)
   \<and> (\<forall>t'. pkAddress (ProposalKey t') = pkAddress (ProposalKey t) \<and> Payer t' = Payer t
             \<and> Authorizers t' = Authorizers t \<longrightarrow> signerList t' = signerList t)"
proof -
  have eq: "signerList t = dedupFirst (signerCandidates t)"
    by (rule signerList_dedupFirst)
  have d: "distinct (signerList t)"
    by (simp add: eq distinct_dedupFirst)
  have s: "set (signerList t) = set (signerCandidates t)"
    by (simp add: eq set_dedupFirst)
  have p: "signerList t ! 0 = pkAddress (ProposalKey t)
        \<and> count_list (signerList t) (pkAddress (ProposalKey t)) = 1
        \<and> signerMap t (pkAddress (ProposalKey t)) = Some 0"
    if ne: "pkAddress (ProposalKey t) \<noteq> EmptyAddress"
  proof -
    from ne obtain rest where r: "signerList t = pkAddress (ProposalKey t) # rest"
      by (simp add: eq signerCandidates_def)
    with d have "count_list (signerList t) (pkAddress (ProposalKey t)) = 1"
      by (simp add: count_list_0_iff)
    moreover from r signerMap_nth [of 0 t] have "signerMap t (pkAddress (ProposalKey t)) = Some 0"
      by simp
    ultimately show ?thesis using r by simp
  qed
  have f: "signerList t' = signerList t"
    if "pkAddress (ProposalKey t') = pkAddress (ProposalKey t) \<and> Payer t' = Payer t
             \<and> Authorizers t' = Authorizers t" for t'
    using that by (simp add: signerList_def cong: if_cong)
  from eq d s p f show ?thesis by blast
qed


lemma EmptyAddress_bytes: "EmptyAddress = [0, 0, 0, 0, 0, 0, 0, 0]"
  by (simp add: EmptyAddress_def AddressLength_def eval_nat_numeral)

lemmas addr_defs = addrA_def addrB_def addrC_def EmptyAddress_bytes

lemma refreshSignerIndex_fields [simp]:
  "ProposalKey (refreshSignerIndex t) = ProposalKey t"
  "Payer (refreshSignerIndex t) = Payer t"
  "Authorizers (refreshSignerIndex t) = Authorizers t"
  "Arguments (refreshSignerIndex t) = Arguments t"
  "Script (refreshSignerIndex t) = Script t"
  "ReferenceBlockID (refreshSignerIndex t) = ReferenceBlockID t"
  "GasLimit (refreshSignerIndex t) = GasLimit t"
  by (simp_all add: refreshSignerIndex_def Let_def)

lemma tx_roles_fields:
  "pkAddress (ProposalKey tx_roles) = addrA" "Payer tx_roles = addrB"
  "Authorizers tx_roles = [addrA, addrC, addrB]"
  by (simp_all add: tx_roles_def AddAuthorizer_def SetPayer_def SetProposalKey_def NewTransaction_def)

theorem signerList_first_occurrence_witness:
  "signerList tx_roles = [addrA, addrB, addrC]
   \<and> signerMap tx_roles addrA = Some 0
   \<and> count_list (signerList tx_roles) addrA = 1"
  using signerList_first_occurrence [of tx_roles]
  by (simp add: signerCandidates_def tx_roles_fields) (simp add: addr_defs)


lemma dedupFirst_append:
  "dedupFirst (xs @ ys) = dedupFirst xs @ dedupFirst (filter (\<lambda>y. y \<notin> set xs) ys)"
proof (induction xs arbitrary: ys rule: dedupFirst.induct)
  case 1
  then show ?case by simp
next
  case (2 x xs)
  have "filter (\<lambda>y. y \<notin> set (removeAll x xs)) (removeAll x ys)
          = filter (\<lambda>y. y \<notin> set (x # xs)) ys"
    by (induction ys) auto
  with 2 [of "removeAll x ys"] show ?case by simp
qed

lemma count_list_distinct:
  "distinct xs \<Longrightarrow> count_list xs x = (if x \<in> set xs then 1 else 0)"
  by (induction xs) auto

lemma signerCandidates_before_sentinel:
  "signerCandidates (t\<lparr>Authorizers := takeWhile (\<lambda>a. a \<noteq> EmptyAddress) (Authorizers t)\<rparr>)
     = takeWhile (\<lambda>a. a \<noteq> EmptyAddress) (signerCandidates t)"
  by (simp add: signerCandidates_def)

lemma dedupFirst_at_first_occurrence:
  assumes "x \<in> set xs"
  shows "\<exists>rest. dedupFirst xs = dedupFirst (takeWhile (\<lambda>a. a \<noteq> x) xs) @ x # rest"
proof -
  from assms obtain zs where d: "dropWhile (\<lambda>a. a \<noteq> x) xs = x # zs"
    by (metis (mono_tags, lifting) dropWhile_eq_Nil_conv hd_dropWhile list.collapse)
  have "x \<notin> set (takeWhile (\<lambda>a. a \<noteq> x) xs)"
    by (auto dest: set_takeWhileD)
  moreover have "xs = takeWhile (\<lambda>a. a \<noteq> x) xs @ x # zs"
    using d takeWhile_dropWhile_id [of "\<lambda>a. a \<noteq> x" xs] by simp
  ultimately show ?thesis
    using dedupFirst_append [of "takeWhile (\<lambda>a. a \<noteq> x) xs" "x # zs"] by simp
qed

text \<open>
  Claim C6, as the code has it. The test against \<open>EmptyAddress\<close> guards the proposer
  and the payer only; every authorizer goes through \<open>addSigner\<close> untested. So the
  signer list is the first-occurrence deduplication of the candidates with a sentinel
  authorizer among them, and the sentinel address is in the signer list exactly when
  it is one of the authorizers. It is then there once, at the position of its first
  occurrence: right after the signer list of the transaction whose authorizers are cut
  off before the first sentinel authorizer.
\<close>

theorem signerList_sentinel_authorizer:
  "signerList t = dedupFirst (signerCandidates t)
   \<and> (EmptyAddress \<in> set (signerList t)) = (EmptyAddress \<in> set (Authorizers t))
   \<and> count_list (signerList t) EmptyAddress = (if EmptyAddress \<in> set (Authorizers t) then 1 else 0)
   \<and> (EmptyAddress \<in> set (Authorizers t) \<longrightarrow>
        (let before = signerList
               (t\<lparr>Authorizers := takeWhile (\<lambda>a. a \<noteq> EmptyAddress) (Authorizers t)\<rparr>)
         in EmptyAddress \<notin> set before
            \<and> length before < length (signerList t)
            \<and> take (length before) (signerList t) = before
            \<and> signerList t ! length before = EmptyAddress))"
proof -
  define before where "before = signerList
               (t\<lparr>Authorizers := takeWhile (\<lambda>a. a \<noteq> EmptyAddress) (Authorizers t)\<rparr>)"
  have eq: "signerList t = dedupFirst (signerCandidates t)"
    by (rule signerList_dedupFirst)
  have m: "(EmptyAddress \<in> set (signerList t)) = (EmptyAddress \<in> set (Authorizers t))"
    by (auto simp: eq set_dedupFirst signerCandidates_def)
  have c: "count_list (signerList t) EmptyAddress = (if EmptyAddress \<in> set (Authorizers t) then 1 else 0)"
    using count_list_distinct [of "signerList t" EmptyAddress] m
    by (simp add: eq distinct_dedupFirst)
  have b: "before = dedupFirst (takeWhile (\<lambda>a. a \<noteq> EmptyAddress) (signerCandidates t))"
    by (simp add: before_def signerList_dedupFirst signerCandidates_before_sentinel)
  have nb: "EmptyAddress \<notin> set before"
    by (auto simp: b set_dedupFirst dest: set_takeWhileD)
  have p: "length before < length (signerList t)
            \<and> take (length before) (signerList t) = before
            \<and> signerList t ! length before = EmptyAddress"
    if "EmptyAddress \<in> set (Authorizers t)"
  proof -
    from that have "EmptyAddress \<in> set (signerCandidates t)"
      by (simp add: signerCandidates_def)
    from dedupFirst_at_first_occurrence [OF this] obtain rest
      where "signerList t = before @ EmptyAddress # rest"
      by (auto simp: eq b)
    then show ?thesis by simp
  qed
  from eq m c nb p show ?thesis
    unfolding Let_def before_def [symmetric] by blast
qed

lemma tx_sentinel_roles_fields:
  "pkAddress (ProposalKey tx_sentinel_roles) = addrA" "Payer tx_sentinel_roles = EmptyAddress"
  "Authorizers tx_sentinel_roles = [addrB, EmptyAddress, addrA, EmptyAddress]"
  by (simp_all add: tx_sentinel_roles_def AddAuthorizer_def SetProposalKey_def NewTransaction_def)

theorem signerList_sentinel_authorizer_witness:
  "EmptyAddress \<in> set (Authorizers tx_sentinel_roles)
   \<and> count_list (signerList tx_sentinel_roles) EmptyAddress = 1
   \<and> 2 < length (signerList tx_sentinel_roles)
   \<and> take 2 (signerList tx_sentinel_roles) = [addrA, addrB]
   \<and> signerList tx_sentinel_roles ! 2 = EmptyAddress"
proof -
  have e: "EmptyAddress \<in> set (Authorizers tx_sentinel_roles)"
    by (simp add: tx_sentinel_roles_fields)
  have tw: "takeWhile (\<lambda>a. a \<noteq> EmptyAddress) (Authorizers tx_sentinel_roles) = [addrB]"
    by (simp add: tx_sentinel_roles_fields) (simp add: addr_defs)
  have b: "signerList (tx_sentinel_roles\<lparr>Authorizers := [addrB]\<rparr>) = [addrA, addrB]"
    by (simp add: signerList_def tx_sentinel_roles_fields addSigner_def addr_defs)
  from signerList_sentinel_authorizer [of tx_sentinel_roles, THEN conjunct2] e show ?thesis
    by (simp add: Let_def tw b numeral_2_eq_2)
qed

theorem signerList_sentinel_counterexample:
  "EmptyAddress \<in> set (Authorizers tx_sentinel) \<and> signerList tx_sentinel = [EmptyAddress]"
  by (simp add: tx_sentinel_def AddAuthorizer_def NewTransaction_def signerList_def addSigner_def)


section \<open>Properties of the canonical form builder\<close>

lemma stripArguments_Inl: "(stripArguments args = Inl IndexOutOfRange) = ([] \<in> set args)"
  by (induction args) (auto split: sum.splits)

lemma stripArguments_Inr:
  "stripArguments args = Inr args' \<Longrightarrow>
     length args' = length args \<and>
     (\<forall>i < length args.
        args ! i \<noteq> [] \<and>
        args' ! i = (if last (args ! i) = 10 then butlast (args ! i) else args ! i))"
proof (induction args arbitrary: args')
  case Nil
  then show ?case by simp
next
  case (Cons arg args)
  from Cons.prems obtain rest where
    ne: "arg \<noteq> []" and
    rest: "stripArguments args = Inr rest" and
    args': "args' = (if arg ! (length arg - 1) = 10 then take (length arg - 1) arg else arg) # rest"
    by (auto split: if_splits sum.splits)
  note IH = Cons.IH [OF rest]
  from ne have l: "arg ! (length arg - 1) = last arg"
    by (simp add: last_conv_nth)
  have hd: "args' ! 0 = (if last arg = 10 then butlast arg else arg)"
    unfolding args' l by (simp add: butlast_conv_take)
  have tl: "args' ! Suc j = rest ! j" for j
    by (simp add: args')
  show ?case
  proof (intro conjI allI impI)
    show "length args' = length (arg # args)" using IH args' by simp
  next
    fix i assume "i < length (arg # args)"
    then show "(arg # args) ! i \<noteq> []" using IH ne by (cases i) simp_all
  next
    fix i assume i: "i < length (arg # args)"
    show "args' ! i = (if last ((arg # args) ! i) = 10 then butlast ((arg # args) ! i)
                       else (arg # args) ! i)"
    proof (cases i)
      case 0
      then show ?thesis using hd by simp
    next
      case (Suc j)
      with i IH have "rest ! j = (if last (args ! j) = 10 then butlast (args ! j) else args ! j)"
        by simp
      with Suc tl show ?thesis by simp
    qed
  qed
qed

lemma stripArguments_unchanged:
  "stripArguments args = Inr args' \<Longrightarrow> \<forall>a \<in> set args. last a \<noteq> 10 \<Longrightarrow> args' = args"
proof (induction args arbitrary: args')
  case Nil
  then show ?case by simp
next
  case (Cons arg args)
  then show ?case
    by (auto simp: last_conv_nth split: if_splits sum.splits)
qed


text \<open>
  Claim C9. When the payload form is built, an argument ending in byte 10 loses exactly
  that byte, an argument not ending in byte 10 is unchanged, the argument \<open>[10]\<close>
  becomes empty, and the stripped arguments are stored back into the transaction.
\<close>

theorem payloadCanonicalForm_strips_newline:
  assumes "payloadCanonicalForm t = Inr (form, t')"
  shows "length (pcArguments form) = length (Arguments t)
         \<and> Arguments t' = pcArguments form
         \<and> (\<forall>i < length (Arguments t).
               (last (Arguments t ! i) = 10 \<longrightarrow>
                  pcArguments form ! i = butlast (Arguments t ! i)
                  \<and> Arguments t ! i = pcArguments form ! i @ [10])
             \<and> (last (Arguments t ! i) \<noteq> 10 \<longrightarrow> pcArguments form ! i = Arguments t ! i)
             \<and> (Arguments t ! i = [10] \<longrightarrow> pcArguments form ! i = []))"
proof -
  from assms obtain args where
    s: "stripArguments (Arguments t) = Inr args" and
    f: "pcArguments form = args" and t': "Arguments t' = args"
    by (auto simp: payloadCanonicalForm_def Let_def split: sum.splits)
  note r = stripArguments_Inr [OF s]
  have each: "(last (Arguments t ! i) = 10 \<longrightarrow>
                  args ! i = butlast (Arguments t ! i)
                  \<and> Arguments t ! i = args ! i @ [10])
             \<and> (last (Arguments t ! i) \<noteq> 10 \<longrightarrow> args ! i = Arguments t ! i)
             \<and> (Arguments t ! i = [10] \<longrightarrow> args ! i = [])"
    if i: "i < length (Arguments t)" for i
  proof -
    from r i have ne: "Arguments t ! i \<noteq> []"
      and v: "args ! i = (if last (Arguments t ! i) = 10 then butlast (Arguments t ! i)
                          else Arguments t ! i)"
      by simp_all
    have "Arguments t ! i = butlast (Arguments t ! i) @ [10]" if "last (Arguments t ! i) = 10"
      using append_butlast_last_id [OF ne] that by simp
    then show ?thesis using v by auto
  qed
  from r have len: "length args = length (Arguments t)" by simp
  show ?thesis unfolding f t' using each len by blast
qed


theorem payloadCanonicalForm_strips_newline_witness:
  "\<exists>form t'. payloadCanonicalForm tx_args = Inr (form, t')
     \<and> pcArguments form = [[0x7B, 0x7D], [0x7B, 0x7D], []]
     \<and> Arguments t' = [[0x7B, 0x7D], [0x7B, 0x7D], []]"
proof -
  have a: "Arguments tx_args = [[0x7B, 0x7D, 10], [0x7B, 0x7D], [10]]"
    by (simp add: tx_args_def AddRawArgument_def NewTransaction_def)
  obtain form t' where p: "payloadCanonicalForm tx_args = Inr (form, t')"
    by (simp add: payloadCanonicalForm_def a Let_def)
  from payloadCanonicalForm_strips_newline [OF p]
  have l: "length (pcArguments form) = 3" and e: "Arguments t' = pcArguments form"
    and n: "\<And>i. i < 3 \<Longrightarrow>
      (last (Arguments tx_args ! i) = 10 \<longrightarrow> pcArguments form ! i = butlast (Arguments tx_args ! i))
      \<and> (last (Arguments tx_args ! i) \<noteq> 10 \<longrightarrow> pcArguments form ! i = Arguments tx_args ! i)"
    by (simp_all add: a)
  from l obtain x y z where xyz: "pcArguments form = [x, y, z]"
    by (auto simp: length_Suc_conv numeral_3_eq_3)
  have "x = [0x7B, 0x7D]" using n [of 0] by (simp add: a xyz)
  moreover have "y = [0x7B, 0x7D]" using n [of 1] by (simp add: a xyz)
  moreover have "z = []" using n [of 2] by (simp add: a xyz)
  ultimately have "pcArguments form = [[0x7B, 0x7D], [0x7B, 0x7D], []]" using xyz by simp
  with p e show ?thesis by simp
qed


text \<open>
  Claim C10. Building the payload form panics with an index out of range exactly when
  some argument is the empty byte string, and so do \<open>PayloadMessage\<close>,
  \<open>EnvelopeMessage\<close> and \<open>Encode\<close>; with no empty argument all four return.
\<close>

theorem empty_argument_panics:
  "(payloadCanonicalForm t = Inl IndexOutOfRange) = ([] \<in> set (Arguments t))
   \<and> (PayloadMessage t = Inl IndexOutOfRange) = ([] \<in> set (Arguments t))
   \<and> (EnvelopeMessage t = Inl IndexOutOfRange) = ([] \<in> set (Arguments t))
   \<and> (Encode t = Inl IndexOutOfRange) = ([] \<in> set (Arguments t))
   \<and> ([] \<notin> set (Arguments t) \<longrightarrow>
        (\<exists>r. payloadCanonicalForm t = Inr r) \<and> (\<exists>r. PayloadMessage t = Inr r)
        \<and> (\<exists>r. EnvelopeMessage t = Inr r) \<and> (\<exists>r. Encode t = Inr r))"
proof -
  have p: "(payloadCanonicalForm t = Inl IndexOutOfRange) = ([] \<in> set (Arguments t))"
    using stripArguments_Inl [of "Arguments t"]
    by (auto simp: payloadCanonicalForm_def Let_def split: sum.splits)
  have cases: "payloadCanonicalForm t = Inl IndexOutOfRange \<or> (\<exists>r. payloadCanonicalForm t = Inr r)"
    by (cases "payloadCanonicalForm t") (auto intro: panic.exhaust)
  have pm: "(PayloadMessage t = Inl IndexOutOfRange) = (payloadCanonicalForm t = Inl IndexOutOfRange)"
    by (auto simp: PayloadMessage_def split: sum.splits)
  have em: "(EnvelopeMessage t = Inl IndexOutOfRange) = (payloadCanonicalForm t = Inl IndexOutOfRange)"
    by (auto simp: EnvelopeMessage_def envelopeCanonicalForm_def split: sum.splits)
  have en: "(Encode t = Inl IndexOutOfRange) = (payloadCanonicalForm t = Inl IndexOutOfRange)"
    by (auto simp: Encode_def split: sum.splits)
  have ok: "(\<exists>r. PayloadMessage t = Inr r) \<and> (\<exists>r. EnvelopeMessage t = Inr r) \<and> (\<exists>r. Encode t = Inr r)"
    if "\<exists>r. payloadCanonicalForm t = Inr r"
    using that
    by (auto simp: PayloadMessage_def EnvelopeMessage_def envelopeCanonicalForm_def Encode_def)
  from p pm em en cases ok show ?thesis by auto
qed


theorem empty_argument_panics_witness:
  "payloadCanonicalForm tx_empty_arg = Inl IndexOutOfRange
   \<and> PayloadMessage tx_empty_arg = Inl IndexOutOfRange
   \<and> EnvelopeMessage tx_empty_arg = Inl IndexOutOfRange
   \<and> Encode tx_empty_arg = Inl IndexOutOfRange
   \<and> (\<exists>r. Encode NewTransaction = Inr r)"
  using empty_argument_panics [of tx_empty_arg] empty_argument_panics [of NewTransaction]
  by (simp add: tx_empty_arg_def AddRawArgument_def NewTransaction_def)


section \<open>The stream decodes what the encoder wrote\<close>

text \<open>
  Each lemma places an encoding at the front of the unread input and shows that the
  matching decoder returns the encoded value and leaves the rest of the input. Sizes are
  below \<open>2 ^ 64\<close>, as every Go slice is.
\<close>

lemma unat_byte: "k < 256 \<Longrightarrow> unat (of_nat k :: byte) = k"
  by (simp add: unat_of_nat)

lemma putint_small: "n < 256 \<Longrightarrow> putint n = [of_nat n]"
  by (simp add: putint.simps)

lemma putint_large: "256 \<le> n \<Longrightarrow> putint n = putint (n div 256) @ [of_nat (n mod 256)]"
  by (subst putint.simps) simp

lemma putint_nonempty: "putint n \<noteq> []"
  by (cases "n < 256") (simp_all add: putint_small putint_large)

lemma be_uint_snoc: "be_uint (xs @ [b]) = be_uint xs * 256 + unat b"
  by (simp add: be_uint_def)

lemma be_uint_putint: "be_uint (putint n) = n"
proof (induction n rule: putint.induct)
  case (1 i)
  show ?case
  proof (cases "i < 256")
    case True
    then show ?thesis by (simp add: putint_small be_uint_def unat_byte)
  next
    case False
    with 1 have "be_uint (putint (i div 256)) = i div 256" by simp
    with False show ?thesis by (simp add: putint_large be_uint_snoc unat_byte)
  qed
qed

lemma length_putint_le: "0 < k \<Longrightarrow> n < 256 ^ k \<Longrightarrow> length (putint n) \<le> k"
proof (induction n arbitrary: k rule: putint.induct)
  case (1 i)
  show ?case
  proof (cases "i < 256")
    case True
    with "1.prems" show ?thesis by (simp add: putint_small)
  next
    case False
    from False "1.prems" obtain j where k: "k = Suc j" by (cases k) auto
    with False "1.prems" have j: "0 < j" by (cases j) auto
    from "1.prems" k have "i div 256 < 256 ^ j"
      by (simp add: less_mult_imp_div_less mult.commute)
    from "1.IH" [OF False j this] False k show ?thesis by (simp add: putint_large)
  qed
qed

lemma length_putint_64: "n < 2 ^ 64 \<Longrightarrow> length (putint n) \<le> 8"
  using length_putint_le [of 8 n] by simp

lemma length_putint_pos: "Suc 0 \<le> length (putint n)"
  using putint_nonempty [of n] by (cases "putint n") simp_all

lemma length_putint_large: "256 \<le> n \<Longrightarrow> 2 \<le> length (putint n)"
  using length_putint_pos [of "n div 256"] by (simp add: putint_large)

lemma hd_putint: "0 < n \<Longrightarrow> hd (putint n) \<noteq> 0"
proof (induction n rule: putint.induct)
  case (1 i)
  show ?case
  proof (cases "i < 256")
    case True
    with "1.prems" have "unat (of_nat i :: byte) \<noteq> 0" by (simp add: unat_byte)
    with True show ?thesis by (auto simp: putint_small)
  next
    case False
    then have "0 < i div 256" by (simp add: div_greater_zero_iff)
    from "1.IH" [OF False this] False show ?thesis
      by (simp add: putint_large putint_nonempty)
  qed
qed

text \<open>The stream reads back the size tag that \<open>puthead\<close> wrote.\<close>

lemma readUint_putint:
  assumes "56 \<le> n" "n < 2 ^ 64"
  shows "readUint s (length (putint n)) (putint n @ rest) = Inr n"
proof (cases "n < 256")
  case True
  then show ?thesis by (simp add: putint_small readUint_def unat_byte)
next
  case False
  then have l: "2 \<le> length (putint n)" by (simp add: length_putint_large)
  from assms have h: "hd (putint n) \<noteq> 0" by (simp add: hd_putint)
  from l h show ?thesis
    by (simp add: readUint_def putint_nonempty be_uint_putint)
qed

lemma readKind_puthead_String:
  assumes "n < 2 ^ 64"
  shows "readKind \<lparr>input = puthead 0x80 0xB7 n @ rest, outer = fs\<rparr>
           = Inr (String, n, length (puthead 0x80 0xB7 n))"
proof (cases "n < 56")
  case True
  with unat_byte [of "128 + n"] show ?thesis by (simp add: puthead_def readKind_def)
next
  case False
  let ?k = "length (putint n)"
  have k: "Suc 0 \<le> ?k" "?k \<le> 8" using assms by (simp_all add: length_putint_pos length_putint_64)
  with unat_byte [of "183 + ?k"] have u: "unat (of_nat (183 + ?k) :: byte) = 183 + ?k" by simp
  from False assms have r: "readUint s' ?k (putint n @ rest) = Inr n" for s'
    by (simp add: readUint_putint)
  from False k u show ?thesis
    by (simp add: puthead_def readKind_def Let_def r putint_nonempty)
qed

lemma readKind_puthead_List:
  assumes "n < 2 ^ 64"
  shows "readKind \<lparr>input = puthead 0xC0 0xF7 n @ rest, outer = fs\<rparr>
           = Inr (List, n, length (puthead 0xC0 0xF7 n))"
proof (cases "n < 56")
  case True
  with unat_byte [of "192 + n"] show ?thesis by (simp add: puthead_def readKind_def)
next
  case False
  let ?k = "length (putint n)"
  have k: "Suc 0 \<le> ?k" "?k \<le> 8" using assms by (simp_all add: length_putint_pos length_putint_64)
  with unat_byte [of "247 + ?k"] have u: "unat (of_nat (247 + ?k) :: byte) = 247 + ?k" by simp
  from False assms have r: "readUint s' ?k (putint n @ rest) = Inr n" for s'
    by (simp add: readUint_putint)
  from False k u show ?thesis
    by (simp add: puthead_def readKind_def Let_def r putint_nonempty)
qed

lemma Stream_Kind_puthead_String:
  assumes "length b < 2 ^ 64"
  shows "Stream_Kind \<lparr>input = puthead 0x80 0xB7 (length b) @ b @ rest, outer = fs\<rparr>
           = Inr (String, length b, length (puthead 0x80 0xB7 (length b)))"
proof -
  have ne: "puthead 0x80 0xB7 (length b) \<noteq> []" by (simp add: puthead_def Let_def)
  show ?thesis
    using readKind_puthead_String [OF assms, of "b @ rest" fs] ne
    by (simp add: Stream_Kind_def)
qed

lemma Stream_Kind_puthead_List:
  assumes "length body < 2 ^ 64"
  shows "Stream_Kind \<lparr>input = puthead 0xC0 0xF7 (length body) @ body @ rest, outer = fs\<rparr>
           = Inr (List, length body, length (puthead 0xC0 0xF7 (length body)))"
proof -
  have ne: "puthead 0xC0 0xF7 (length body) \<noteq> []" by (simp add: puthead_def Let_def)
  show ?thesis
    using readKind_puthead_List [OF assms, of "body @ rest" fs] ne
    by (simp add: Stream_Kind_def)
qed

lemma encodeString_cases:
  obtains (byte) x where "b = [x]" "unat x < 128" "encodeString b = b"
  | (string) "\<not> (length b = 1 \<and> unat (hd b) < 128)"
             "encodeString b = puthead 0x80 0xB7 (length b) @ b"
proof (cases "length b = 1 \<and> unat (hd b) < 128")
  case True
  then obtain x where "b = [x]" "unat x < 128" by (cases b) auto
  then show ?thesis using byte by (simp add: encodeString_def)
next
  case False
  then have "encodeString b = puthead 0x80 0xB7 (length b) @ b"
    by (auto simp: encodeString_def)
  with False show ?thesis using string by blast
qed

lemma Stream_Bytes_encodeString:
  assumes "length b < 2 ^ 64"
  shows "Stream_Bytes \<lparr>input = encodeString b @ rest, outer = fs\<rparr>
           = Inr (b, \<lparr>input = rest, outer = fs\<rparr>)"
proof (cases b rule: encodeString_cases)
  case (byte x)
  then show ?thesis
    by (simp add: Stream_Bytes_def Stream_Kind_def readKind_def)
next
  case string
  have "Stream_Bytes \<lparr>input = puthead 0x80 0xB7 (length b) @ b @ rest, outer = fs\<rparr>
           = Inr (b, \<lparr>input = rest, outer = fs\<rparr>)"
    unfolding Stream_Bytes_def Stream_Kind_puthead_String [OF assms]
    using string(1) by (auto simp: Let_def)
  with string show ?thesis by simp
qed

lemma Stream_Kind_encodeString_not_List:
  assumes "length b < 2 ^ 64"
  shows "\<exists>k n tag. Stream_Kind \<lparr>input = encodeString b @ rest, outer = fs\<rparr> = Inr (k, n, tag)
           \<and> k \<noteq> List"
proof (cases b rule: encodeString_cases)
  case (byte x)
  then show ?thesis
    by (simp add: Stream_Kind_def readKind_def)
next
  case string
  then show ?thesis
    using Stream_Kind_puthead_String [OF assms, of rest fs] by simp
qed

lemma Stream_uint_encodeUint:
  "Stream_uint 64 \<lparr>input = encodeUint i @ rest, outer = fs\<rparr>
     = Inr (unat i, \<lparr>input = rest, outer = fs\<rparr>)"
proof -
  consider (zero) "i = 0" | (small) "i \<noteq> 0" "unat i < 128" | (large) "128 \<le> unat i"
    by fastforce
  then show ?thesis
  proof cases
    case zero
    then show ?thesis
      by (simp add: encodeUint_def Stream_uint_def Stream_Kind_def readKind_def readUint_def)
  next
    case small
    then have p: "0 < unat i" by (simp add: unat_gt_0)
    from small unat_byte [of "unat i"] have u: "unat (of_nat (unat i) :: byte) = unat i"
      by simp
    with p have "unat (of_nat (unat i) :: byte) \<noteq> 0" by simp
    then have nz: "(of_nat (unat i) :: byte) \<noteq> 0" by (metis unat_0)
    from small u nz show ?thesis
      by (simp add: encodeUint_def Stream_uint_def Stream_Kind_def readKind_def)
  next
    case large
    let ?n = "unat i" and ?k = "length (putint (unat i))"
    have n: "?n < 2 ^ 64" using unsigned_less [of i, where 'a = nat] by simp
    have k: "Suc 0 \<le> ?k" "?k \<le> 8" using n by (simp_all add: length_putint_pos length_putint_64)
    with unat_byte [of "128 + ?k"] have u: "unat (of_nat (128 + ?k) :: byte) = 128 + ?k" by simp
    have r: "readUint s' ?k (putint ?n @ rest) = Inr ?n" for s'
      using large n by (simp add: readUint_putint)
    from large have nz: "i \<noteq> 0" by auto
    from large k nz u show ?thesis
      by (simp add: encodeUint_def Stream_uint_def Stream_Kind_def readKind_def Let_def r)
  qed
qed

lemma decodeUint_encodeUint:
  "decodeUint \<lparr>input = encodeUint i @ rest, outer = fs\<rparr> = Inr (i, \<lparr>input = rest, outer = fs\<rparr>)"
  by (simp add: decodeUint_def bindE_def Stream_uint_encodeUint)

lemma Stream_List_encodeList:
  assumes "length (concat items) < 2 ^ 64"
  shows "Stream_List \<lparr>input = encodeList items @ rest, outer = fs\<rparr>
           = Inr (length (concat items), \<lparr>input = concat items, outer = rest # fs\<rparr>)"
  using Stream_Kind_puthead_List [OF assms, of rest fs]
  by (simp add: encodeList_def Stream_List_def Let_def)


lemma encodeString_nonempty: "encodeString b \<noteq> []"
  by (cases b rule: encodeString_cases) (simp_all add: puthead_def Let_def)

lemma length_le_encodeString: "length b \<le> length (encodeString b)"
  by (cases b rule: encodeString_cases) simp_all


lemma length_concat_le_encodeList: "length (concat items) \<le> length (encodeList items)"
  by (simp add: encodeList_def Let_def)

lemma decodeSliceElems_bytes_encoded:
  assumes "\<forall>x \<in> set xs. length x < 2 ^ 64"
  shows "decodeSliceElems_bytes \<lparr>input = concat (map encodeString xs), outer = r # fs\<rparr>
           = Inr (xs, \<lparr>input = [], outer = r # fs\<rparr>)"
  using assms
proof (induction xs)
  case Nil
  show ?case
    by (subst decodeSliceElems_bytes.simps)
       (simp add: decodeByteSlice_def Stream_Bytes_def Stream_Kind_def)
next
  case (Cons x xs)
  then have x: "length x < 2 ^ 64" and
    IH: "decodeSliceElems_bytes \<lparr>input = concat (map encodeString xs), outer = r # fs\<rparr>
           = Inr (xs, \<lparr>input = [], outer = r # fs\<rparr>)"
    by simp_all
  show ?case
    by (subst decodeSliceElems_bytes.simps)
       (simp add: decodeByteSlice_def Stream_Bytes_encodeString [OF x] IH)
qed

lemma Stream_ListEnd_empty:
  "Stream_ListEnd \<lparr>input = [], outer = r # fs\<rparr> = Inr \<lparr>input = r, outer = fs\<rparr>"
  by (simp add: Stream_ListEnd_def)

lemma concat_encodeString_empty: "(concat (map encodeString xs) = []) = (xs = [])"
  by (cases xs) (simp_all add: encodeString_nonempty)

lemma length_elem_le_concat:
  "x \<in> set xs \<Longrightarrow> length (f x) \<le> length (concat (map f xs))"
  by (induction xs) auto

lemma concat_nonempty:
  "xs \<noteq> [] \<Longrightarrow> (\<And>x. f x \<noteq> []) \<Longrightarrow> concat (map f xs) \<noteq> []"
  by (cases xs) simp_all

lemma decodeListSlice_bytes_encoded:
  assumes "length (encodeList (map encodeString xs)) < 2 ^ 64"
  shows "decodeListSlice_bytes \<lparr>input = encodeList (map encodeString xs) @ rest, outer = fs\<rparr>
           = Inr (xs, \<lparr>input = rest, outer = fs\<rparr>)"
proof -
  define body where "body = concat (map encodeString xs)"
  from assms length_concat_le_encodeList [of "map encodeString xs"]
  have b: "length (concat (map encodeString xs)) < 2 ^ 64" by simp
  have e: "\<forall>x \<in> set xs. length x < 2 ^ 64"
  proof
    fix x assume "x \<in> set xs"
    from length_elem_le_concat [OF this, of encodeString] length_le_encodeString [of x] b
    show "length x < 2 ^ 64" by simp
  qed
  have l: "Stream_List \<lparr>input = encodeList (map encodeString xs) @ rest, outer = fs\<rparr>
             = Inr (length body, \<lparr>input = body, outer = rest # fs\<rparr>)"
    unfolding body_def by (rule Stream_List_encodeList [OF b])
  have d: "decodeSliceElems_bytes \<lparr>input = body, outer = rest # fs\<rparr>
             = Inr (xs, \<lparr>input = [], outer = rest # fs\<rparr>)"
    unfolding body_def by (rule decodeSliceElems_bytes_encoded [OF e])
  show ?thesis
  proof (cases "xs = []")
    case True
    then have "body = []" by (simp add: body_def)
    with True show ?thesis
      unfolding decodeListSlice_bytes_def l
      by (simp add: bindE_def Stream_ListEnd_empty)
  next
    case False
    then have "body \<noteq> []"
      unfolding body_def by (rule concat_nonempty) (rule encodeString_nonempty)
    then show ?thesis
      unfolding decodeListSlice_bytes_def l
      by (simp add: bindE_def d Stream_ListEnd_empty)
  qed
qed






lemma Stream_Kind_encodeList:
  assumes "length (concat items) < 2 ^ 64"
  shows "Stream_Kind \<lparr>input = encodeList items @ rest, outer = fs\<rparr>
           = Inr (List, length (concat items), length (puthead 0xC0 0xF7 (length (concat items))))"
  using Stream_Kind_puthead_List [OF assms, of rest fs]
  by (simp add: encodeList_def Let_def)

lemma decode_payloadCanonicalForm_encoded:
  assumes "length (encode_payloadCanonicalForm p) < 2 ^ 64"
  shows "decode_payloadCanonicalForm \<lparr>input = encode_payloadCanonicalForm p @ rest, outer = fs\<rparr>
           = Inr (p, \<lparr>input = rest, outer = fs\<rparr>)"
proof -
  define args where "args = encodeList (map encodeString (pcArguments p))"
  define auths where "auths = encodeList (map encodeString (pcAuthorizers p))"
  let ?items = "[encodeString (pcScript p), args, encodeString (pcReferenceBlockID p),
        encodeUint (pcGasLimit p), encodeString (pcProposalKeyAddress p),
        encodeUint (pcProposalKeyIndex p), encodeUint (pcProposalKeySequenceNumber p),
        encodeString (pcPayer p), auths]"
  have enc: "encode_payloadCanonicalForm p = encodeList ?items"
    by (simp add: encode_payloadCanonicalForm_def args_def auths_def)
  from assms length_concat_le_encodeList [of ?items]
  have b: "length (concat ?items) < 2 ^ 64" by (simp add: enc)
  from b length_le_encodeString [of "pcScript p"]
  have s1: "length (pcScript p) < 2 ^ 64" by simp
  from b have s2: "length args < 2 ^ 64" by simp
  from b length_le_encodeString [of "pcReferenceBlockID p"]
  have s3: "length (pcReferenceBlockID p) < 2 ^ 64" by simp
  from b length_le_encodeString [of "pcProposalKeyAddress p"]
  have s5: "length (pcProposalKeyAddress p) < 2 ^ 64" by simp
  from b length_le_encodeString [of "pcPayer p"]
  have s8: "length (pcPayer p) < 2 ^ 64" by simp
  from b have s9: "length auths < 2 ^ 64" by simp
  have d2: "decodeListSlice_bytes \<lparr>input = args @ r, outer = f\<rparr>
              = Inr (pcArguments p, \<lparr>input = r, outer = f\<rparr>)" for r f
    using s2 unfolding args_def by (rule decodeListSlice_bytes_encoded)
  have d9: "decodeListSlice_bytes \<lparr>input = auths, outer = f\<rparr>
              = Inr (pcAuthorizers p, \<lparr>input = [], outer = f\<rparr>)" for f
    using decodeListSlice_bytes_encoded [of "pcAuthorizers p" "[]" f] s9
    unfolding auths_def by simp
  have l: "Stream_List \<lparr>input = encode_payloadCanonicalForm p @ rest, outer = fs\<rparr>
        = Inr (length (concat ?items), \<lparr>input = concat ?items, outer = rest # fs\<rparr>)"
    unfolding enc by (rule Stream_List_encodeList [OF b])
  show ?thesis
    unfolding decode_payloadCanonicalForm_def l
    by (simp add: bindE_def field_def decodeByteSlice_def decodeUint_encodeUint
          Stream_Bytes_encodeString [OF s1] Stream_Bytes_encodeString [OF s3]
          Stream_Bytes_encodeString [OF s5] Stream_Bytes_encodeString [OF s8]
          d2 d9 Stream_ListEnd_empty)
qed

lemma encode_payloadCanonicalForm_first_kind:
  assumes "length (encode_payloadCanonicalForm p) < 2 ^ 64"
  shows "\<exists>n s1 k sz tag.
           Stream_Kind (NewStream (encode_payloadCanonicalForm p)) = Inr (List, n, length (puthead 0xC0 0xF7 n))
         \<and> Stream_List (NewStream (encode_payloadCanonicalForm p)) = Inr (n, s1)
         \<and> Stream_Kind s1 = Inr (k, sz, tag) \<and> k \<noteq> List"
proof -
  define others where "others = concat [encodeList (map encodeString (pcArguments p)),
        encodeString (pcReferenceBlockID p),
        encodeUint (pcGasLimit p), encodeString (pcProposalKeyAddress p),
        encodeUint (pcProposalKeyIndex p), encodeUint (pcProposalKeySequenceNumber p),
        encodeString (pcPayer p), encodeList (map encodeString (pcAuthorizers p))]"
  let ?items = "[encodeString (pcScript p), others]"
  have enc: "encode_payloadCanonicalForm p = encodeList ?items"
    by (simp add: encode_payloadCanonicalForm_def others_def encodeList_def)
  from assms length_concat_le_encodeList [of ?items]
  have b: "length (concat ?items) < 2 ^ 64" by (simp add: enc)
  from b length_le_encodeString [of "pcScript p"]
  have s1: "length (pcScript p) < 2 ^ 64" by simp
  have k: "Stream_Kind (NewStream (encode_payloadCanonicalForm p))
             = Inr (List, length (concat ?items), length (puthead 0xC0 0xF7 (length (concat ?items))))"
    unfolding enc NewStream_def
    using Stream_Kind_encodeList [OF b, of "[]" "[]"] by simp
  have l: "Stream_List (NewStream (encode_payloadCanonicalForm p))
             = Inr (length (concat ?items), \<lparr>input = concat ?items, outer = [[]]\<rparr>)"
    unfolding enc NewStream_def
    using Stream_List_encodeList [OF b, of "[]" "[]"] by simp
  from Stream_Kind_encodeString_not_List [OF s1, of others "[[]]"]
  obtain k' sz tag where
    "Stream_Kind \<lparr>input = concat ?items, outer = [[]]\<rparr> = Inr (k', sz, tag)" "k' \<noteq> List"
    by auto
  with k l show ?thesis by blast
qed

lemma decodeTransaction_payload:
  assumes "length (encode_payloadCanonicalForm p) < 2 ^ 64"
  shows "decodeTransaction (encode_payloadCanonicalForm p)
           = Inr \<lparr>tcPayload = p, tcPayloadSignatures = [], tcEnvelopeSignatures = []\<rparr>"
proof -
  from encode_payloadCanonicalForm_first_kind [OF assms]
  obtain n s1 k sz tag where
    k0: "Stream_Kind (NewStream (encode_payloadCanonicalForm p)) = Inr (List, n, length (puthead 0xC0 0xF7 n))"
    and l: "Stream_List (NewStream (encode_payloadCanonicalForm p)) = Inr (n, s1)"
    and k1: "Stream_Kind s1 = Inr (k, sz, tag)" and nl: "k \<noteq> List"
    by blast
  have d: "decode_payloadCanonicalForm (NewStream (encode_payloadCanonicalForm p))
             = Inr (p, \<lparr>input = [], outer = []\<rparr>)"
    unfolding NewStream_def
    using decode_payloadCanonicalForm_encoded [OF assms, of "[]" "[]"] by simp
  show ?thesis
    unfolding decodeTransaction_def Let_def k0 l
    by (simp add: bindE_def k1 nl d)
qed




lemma BytesToAddress_Bytes: "length a = AddressLength \<Longrightarrow> BytesToAddress (Bytes a) = a"
  by (simp add: BytesToAddress_def Bytes_def)

lemma BytesToID_id: "length b = 32 \<Longrightarrow> BytesToID b = b"
  by (simp add: BytesToID_def)

lemma map_BytesToAddress_Bytes:
  "list_all (\<lambda>a. length a = AddressLength) as \<Longrightarrow> map BytesToAddress (map Bytes as) = as"
  by (induction as) (simp_all add: BytesToAddress_Bytes)

lemma signerList_cong:
  "pkAddress (ProposalKey t') = pkAddress (ProposalKey t) \<Longrightarrow> Payer t' = Payer t \<Longrightarrow>
     Authorizers t' = Authorizers t \<Longrightarrow> signerList t' = signerList t"
  by (simp add: signerList_def cong: if_cong)

lemma resolveSignatures_current:
  assumes "list_all (signerIndexCurrent t) sigs"
  shows "resolveSignatures (signerList t) (signaturesList_canonicalForm sigs) = Inr sigs"
  using assms
proof (induction sigs)
  case Nil
  then show ?case by (simp add: signaturesList_canonicalForm_def)
next
  case (Cons sg sigs)
  then have IH: "resolveSignatures (signerList t) (map canonicalForm sigs) = Inr sigs"
    and i: "0 \<le> sint (SignerIndex sg)" "nat (sint (SignerIndex sg)) < length (signerList t)"
    and a: "signerList t ! nat (sint (SignerIndex sg)) = Address sg"
    by (simp_all add: signaturesList_canonicalForm_def signerIndexCurrent_def)
  from i have r: "\<not> (sint (SignerIndex sg) < 0 \<or> int (length (signerList t)) \<le> sint (SignerIndex sg))"
    by linarith
  show ?case
    using r a IH
    by (simp add: signaturesList_canonicalForm_def canonicalForm_def
          transactionSignatureFromCanonicalForm_def Let_def)
qed

lemma resolveSignatures_Inl:
  "(resolveSignatures signers sigs = Inl IndexOutOfRange) =
   (\<exists>sig \<in> set sigs. sint (scSignerIndex sig) < 0 \<or> int (length signers) \<le> sint (scSignerIndex sig))"
  by (induction sigs)
     (auto simp: Let_def transactionSignatureFromCanonicalForm_def split: sum.splits)

text \<open>What the three encode entry points return, when they return.\<close>

lemma payloadCanonicalForm_Inr:
  assumes "payloadCanonicalForm t = Inr (p, t')"
  shows "\<exists>args. stripArguments (Arguments t) = Inr args \<and> t' = t\<lparr>Arguments := args\<rparr>
         \<and> p = \<lparr>pcScript = Script t, pcArguments = args,
                 pcReferenceBlockID = ReferenceBlockID t, pcGasLimit = GasLimit t,
                 pcProposalKeyAddress = Bytes (pkAddress (ProposalKey t)),
                 pcProposalKeyIndex = pkKeyIndex (ProposalKey t),
                 pcProposalKeySequenceNumber = pkSequenceNumber (ProposalKey t),
                 pcPayer = Bytes (Payer t), pcAuthorizers = map Bytes (Authorizers t)\<rparr>"
  using assms by (auto simp: payloadCanonicalForm_def Let_def split: sum.splits)

text \<open>The transaction DecodeTransaction builds from a decoded canonical form.\<close>

lemma DecodeTransaction_of_form:
  assumes d: "decodeTransaction bs =
                Inr \<lparr>tcPayload = p, tcPayloadSignatures = signaturesList_canonicalForm ps,
                     tcEnvelopeSignatures = signaturesList_canonicalForm es\<rparr>"
    and p: "payloadCanonicalForm t = Inr (p, t')"
    and wf: "wellFormed t"
    and cp: "list_all (signerIndexCurrent t) ps"
    and ce: "list_all (signerIndexCurrent t) es"
  shows "DecodeTransaction bs = Inr (t'\<lparr>PayloadSignatures := ps, EnvelopeSignatures := es\<rparr>)"
proof -
  from payloadCanonicalForm_Inr [OF p] obtain args where
    t': "t' = t\<lparr>Arguments := args\<rparr>" and
    pf: "p = \<lparr>pcScript = Script t, pcArguments = args,
                 pcReferenceBlockID = ReferenceBlockID t, pcGasLimit = GasLimit t,
                 pcProposalKeyAddress = Bytes (pkAddress (ProposalKey t)),
                 pcProposalKeyIndex = pkKeyIndex (ProposalKey t),
                 pcProposalKeySequenceNumber = pkSequenceNumber (ProposalKey t),
                 pcPayer = Bytes (Payer t), pcAuthorizers = map Bytes (Authorizers t)\<rparr>"
    by blast
  define t0 where "t0 = t'\<lparr>PayloadSignatures := [], EnvelopeSignatures := []\<rparr>"
  from wf map_BytesToAddress_Bytes [of "Authorizers t"]
  have a: "map (BytesToAddress \<circ> Bytes) (Authorizers t) = Authorizers t"
    by (simp add: wellFormed_def)
  from wf
  have pa: "BytesToAddress (Bytes (pkAddress (ProposalKey t))) = pkAddress (ProposalKey t)"
    and py: "BytesToAddress (Bytes (Payer t)) = Payer t"
    and rb: "BytesToID (ReferenceBlockID t) = ReferenceBlockID t"
    by (simp_all add: wellFormed_def BytesToAddress_Bytes BytesToID_id)
  have pk: "\<lparr>pkAddress = pkAddress (ProposalKey t), pkKeyIndex = pkKeyIndex (ProposalKey t),
             pkSequenceNumber = pkSequenceNumber (ProposalKey t)\<rparr> = ProposalKey t"
    by simp
  have built: "\<lparr>Script = pcScript p, Arguments = pcArguments p,
                 ReferenceBlockID = BytesToID (pcReferenceBlockID p), GasLimit = pcGasLimit p,
                 ProposalKey =
                   \<lparr>pkAddress = BytesToAddress (pcProposalKeyAddress p),
                    pkKeyIndex = pcProposalKeyIndex p,
                    pkSequenceNumber = pcProposalKeySequenceNumber p\<rparr>,
                 Payer = BytesToAddress (pcPayer p),
                 Authorizers = map BytesToAddress (pcAuthorizers p),
                 PayloadSignatures = [], EnvelopeSignatures = []\<rparr> = t0"
    unfolding t0_def t' pf by (simp add: a pa py rb pk)
  have sl: "signerList t0 = signerList t"
    by (rule signerList_cong) (simp_all add: t0_def t')
  from cp have rp: "resolveSignatures (signerList t) (map canonicalForm ps) = Inr ps"
    using resolveSignatures_current [of t ps] by (simp add: signaturesList_canonicalForm_def)
  from ce have re: "resolveSignatures (signerList t) (map canonicalForm es) = Inr es"
    using resolveSignatures_current [of t es] by (simp add: signaturesList_canonicalForm_def)
  show ?thesis
    unfolding DecodeTransaction_def d
    by (cases "ps = []"; cases "es = []";
        simp add: built Let_def sl rp re bindE_def signaturesList_canonicalForm_def;
        simp add: t0_def)
qed

lemma tx_scenario_eq: "tx_scenario = tx_scenario_record"
  by code_simp

lemmas encode_eval =
  payloadCanonicalForm_def envelopeCanonicalForm_def signaturesList_canonicalForm_def
  canonicalForm_def encode_transactionCanonicalForm_def encode_envelopeCanonicalForm_def
  encode_payloadCanonicalForm_def encode_signatures_def
  encode_transactionSignatureCanonicalForm_def encodeList_def encodeString_def encodeUint_def
  puthead_def putint.simps Bytes_def Let_def

lemma PayloadMessage_tx_scenario:
  "PayloadMessage tx_scenario = Inr (payload_scenario, tx_scenario)"
  unfolding tx_scenario_eq
  by (simp add: PayloadMessage_def tx_scenario_record_def payload_scenario_def encode_eval)



lemma wellFormed_tx_scenario: "wellFormed tx_scenario"
  unfolding tx_scenario_eq
  by (simp add: wellFormed_def tx_scenario_record_def AddressLength_def)


lemma signatures_tx_scenario:
  "PayloadSignatures tx_scenario =
     [\<lparr>Address = addrA, SignerIndex = 0, KeyIndex = 0, Signature = [9]\<rparr>]"
  "EnvelopeSignatures tx_scenario = []"
  by (simp_all add: tx_scenario_eq tx_scenario_record_def addrA_def)


text \<open>
  What \<open>DecodeTransaction\<close> makes of a payload message, in terms of the transaction
  \<open>PayloadMessage\<close> leaves behind.
\<close>

lemma PayloadMessage_decoded:
  assumes "PayloadMessage t = Inr (bs, t')"
      and "length bs < 2 ^ 64"
      and "wellFormed t"
  shows "DecodeTransaction bs = Inr (t'\<lparr>PayloadSignatures := [], EnvelopeSignatures := []\<rparr>)"
    and "\<exists>p. payloadCanonicalForm t = Inr (p, t')
                \<and> decode_payloadCanonicalForm (NewStream bs) = Inr (p, \<lparr>input = [], outer = []\<rparr>)
                \<and> decodeTransaction bs =
                     Inr \<lparr>tcPayload = p, tcPayloadSignatures = [], tcEnvelopeSignatures = []\<rparr>"
    and "\<exists>n s1 k sz tag. Stream_List (NewStream bs) = Inr (n, s1)
                \<and> Stream_Kind s1 = Inr (k, sz, tag) \<and> k \<noteq> List"
proof -
  from assms(1) obtain p where
    p: "payloadCanonicalForm t = Inr (p, t')" and
    bs: "bs = encode_payloadCanonicalForm p"
    by (auto simp: PayloadMessage_def split: sum.splits)
  from assms(2) have len: "length (encode_payloadCanonicalForm p) < 2 ^ 64" by (simp add: bs)
  have d: "decodeTransaction bs =
      Inr \<lparr>tcPayload = p, tcPayloadSignatures = signaturesList_canonicalForm [],
           tcEnvelopeSignatures = signaturesList_canonicalForm []\<rparr>"
    unfolding bs using decodeTransaction_payload [OF len]
    by (simp add: signaturesList_canonicalForm_def)
  have e: "list_all (signerIndexCurrent t) []" by simp
  from DecodeTransaction_of_form [OF d p assms(3) e e]
  show "DecodeTransaction bs = Inr (t'\<lparr>PayloadSignatures := [], EnvelopeSignatures := []\<rparr>)" .
  from encode_payloadCanonicalForm_first_kind [OF len]
  show "\<exists>n s1 k sz tag. Stream_List (NewStream bs) = Inr (n, s1)
                \<and> Stream_Kind s1 = Inr (k, sz, tag) \<and> k \<noteq> List"
    unfolding bs by blast
  have dp: "decode_payloadCanonicalForm (NewStream bs) = Inr (p, \<lparr>input = [], outer = []\<rparr>)"
    unfolding bs NewStream_def
    using decode_payloadCanonicalForm_encoded [OF len, of "[]" "[]"] by simp
  from p dp d
  show "\<exists>p. payloadCanonicalForm t = Inr (p, t')
                \<and> decode_payloadCanonicalForm (NewStream bs) = Inr (p, \<lparr>input = [], outer = []\<rparr>)
                \<and> decodeTransaction bs =
                     Inr \<lparr>tcPayload = p, tcPayloadSignatures = [], tcEnvelopeSignatures = []\<rparr>"
    by (simp add: signaturesList_canonicalForm_def)
qed

section \<open>Round trips through the codec\<close>





text \<open>
  Claim C8, as the code has it. Whenever \<open>PayloadMessage\<close> returns bytes, that is for a
  transaction with no empty argument, \<open>DecodeTransaction\<close> applied to them takes the
  payload-only branch (the first element inside the outer list is not a list, so the
  payload is decoded from a fresh stream over the whole message) and yields the
  transaction as \<open>PayloadMessage\<close> leaves it, with both signature sequences empty:
  equal to the original in script, reference block ID, gas limit, proposal key, payer
  and authorizers, with the arguments stripped of a trailing byte 10. When no argument
  ends in byte 10 the result is the original transaction without its signatures.
\<close>

theorem PayloadMessage_DecodeTransaction_roundtrip:
  assumes "PayloadMessage t = Inr (bs, t')"
      and "length bs < 2 ^ 64"
      and "wellFormed t"
  shows "DecodeTransaction bs = Inr (t'\<lparr>PayloadSignatures := [], EnvelopeSignatures := []\<rparr>)
         \<and> Script t' = Script t \<and> ReferenceBlockID t' = ReferenceBlockID t
         \<and> GasLimit t' = GasLimit t \<and> ProposalKey t' = ProposalKey t \<and> Payer t' = Payer t
         \<and> Authorizers t' = Authorizers t
         \<and> PayloadSignatures t' = PayloadSignatures t
         \<and> EnvelopeSignatures t' = EnvelopeSignatures t
         \<and> stripArguments (Arguments t) = Inr (Arguments t')
         \<and> ((\<forall>a \<in> set (Arguments t). last a \<noteq> 10) \<longrightarrow>
              DecodeTransaction bs = Inr (t\<lparr>PayloadSignatures := [], EnvelopeSignatures := []\<rparr>))
         \<and> (\<exists>n s1 k sz tag. Stream_List (NewStream bs) = Inr (n, s1)
                \<and> Stream_Kind s1 = Inr (k, sz, tag) \<and> k \<noteq> List)
         \<and> (\<exists>p. payloadCanonicalForm t = Inr (p, t')
                \<and> decode_payloadCanonicalForm (NewStream bs) = Inr (p, \<lparr>input = [], outer = []\<rparr>)
                \<and> decodeTransaction bs =
                     Inr \<lparr>tcPayload = p, tcPayloadSignatures = [], tcEnvelopeSignatures = []\<rparr>)"
proof -
  from assms(1) obtain p where p: "payloadCanonicalForm t = Inr (p, t')"
    by (auto simp: PayloadMessage_def split: sum.splits)
  from payloadCanonicalForm_Inr [OF p] obtain args where
    s: "stripArguments (Arguments t) = Inr args" and t': "t' = t\<lparr>Arguments := args\<rparr>"
    by blast
  note r = PayloadMessage_decoded [OF assms]
  have links: "Script t' = Script t \<and> ReferenceBlockID t' = ReferenceBlockID t
         \<and> GasLimit t' = GasLimit t \<and> ProposalKey t' = ProposalKey t \<and> Payer t' = Payer t
         \<and> Authorizers t' = Authorizers t
         \<and> PayloadSignatures t' = PayloadSignatures t
         \<and> EnvelopeSignatures t' = EnvelopeSignatures t
         \<and> stripArguments (Arguments t) = Inr (Arguments t')"
    using s by (simp add: t')
  have exact: "DecodeTransaction bs = Inr (t\<lparr>PayloadSignatures := [], EnvelopeSignatures := []\<rparr>)"
    if "\<forall>a \<in> set (Arguments t). last a \<noteq> 10"
  proof -
    from stripArguments_unchanged [OF s that] have "t' = t" by (simp add: t')
    with r(1) show ?thesis by simp
  qed
  from r links exact show ?thesis by (intro conjI impI) (simp_all only:)
qed

theorem PayloadMessage_DecodeTransaction_roundtrip_witness:
  "PayloadMessage tx_scenario = Inr (payload_scenario, tx_scenario)
   \<and> map last (Arguments tx_scenario) = [0x7D]
   \<and> DecodeTransaction payload_scenario = Inr (tx_scenario\<lparr>PayloadSignatures := []\<rparr>)"
proof -
  have l: "length payload_scenario < 2 ^ 64"
    by (simp add: payload_scenario_def)
  have a: "\<forall>a \<in> set (Arguments tx_scenario). last a \<noteq> 10"
    by (simp add: tx_scenario_eq tx_scenario_record_def)
  from PayloadMessage_DecodeTransaction_roundtrip
         [OF PayloadMessage_tx_scenario l wellFormed_tx_scenario] a
  have "DecodeTransaction payload_scenario
          = Inr (tx_scenario\<lparr>PayloadSignatures := [], EnvelopeSignatures := []\<rparr>)"
    by blast
  moreover have "map last (Arguments tx_scenario) = [0x7D]"
    by (simp add: tx_scenario_eq tx_scenario_record_def)
  ultimately show ?thesis by (simp add: PayloadMessage_tx_scenario signatures_tx_scenario)
qed

lemma replicate_32: "replicate 32 (0 :: byte) =
  [0, 0, 0, 0, 0, 0, 0, 0, 0, 0, 0, 0, 0, 0, 0, 0, 0, 0, 0, 0, 0, 0, 0, 0, 0, 0, 0, 0, 0, 0, 0, 0]"
  by (simp add: eval_nat_numeral)





lemmas encode_eval_sig =
  payloadCanonicalForm_def envelopeCanonicalForm_def signaturesList_canonicalForm_def
  canonicalForm_def encode_transactionCanonicalForm_def encode_envelopeCanonicalForm_def
  encode_payloadCanonicalForm_def encode_signatures_def
  encode_transactionSignatureCanonicalForm_def encodeList_def encodeString_def
  puthead_def Bytes_def Let_def

lemma encodeUint_small: "encodeUint 0 = [0x80]" "encodeUint 9999 = [130, 39, 15]"
  by (simp_all add: encodeUint_def putint.simps)



lemma payloadTransaction_built:
  "DecodeTransaction bs =
     (case decodeTransaction bs of
        Inl err \<Rightarrow> Inl (Error err)
      | Inr temp \<Rightarrow>
          (let t = payloadTransaction (tcPayload temp); signers = signerList t
           in case (if length (tcPayloadSignatures temp) > 0
                    then bindE (resolveSignatures signers (tcPayloadSignatures temp))
                           (\<lambda>payloadSignatures. Inr (t\<lparr>PayloadSignatures := payloadSignatures\<rparr>))
                    else Inr t) of
                Inl p \<Rightarrow> Inl (Panic p)
              | Inr t1 \<Rightarrow>
                  (case (if length (tcEnvelopeSignatures temp) > 0
                         then bindE (resolveSignatures signers (tcEnvelopeSignatures temp))
                                (\<lambda>envelopeSignatures. Inr (t1\<lparr>EnvelopeSignatures := envelopeSignatures\<rparr>))
                         else Inr t1) of
                     Inl p \<Rightarrow> Inl (Panic p)
                   | Inr t2 \<Rightarrow>
                       Inr (t2\<lparr>Arguments := (if length (Arguments t2) = 0 then [] else Arguments t2),
                                Script := (if length (Script t2) = 0 then [] else Script t2)\<rparr>))))"
  by (cases "decodeTransaction bs")
     (simp_all add: DecodeTransaction_def payloadTransaction_def Let_def)

lemma sint_nonneg_uint:
  assumes "\<not> sint (i :: 64 word) < 0"
  shows "sint i = uint i"
proof -
  have s: "sint i = signed_take_bit 63 (uint i)" by (simp add: sint_uint)
  have u: "uint i < 2 ^ 64" using uint_bounded [of i] by simp
  have "uint i < 2 ^ 63"
  proof (rule ccontr)
    assume "\<not> uint i < 2 ^ 63"
    then have "2 ^ 63 \<le> uint i" by simp
    from signed_take_bit_int_less_eq [OF this]
    have "signed_take_bit 63 (uint i) \<le> uint i - 2 ^ 64" by simp
    with s have "sint i \<le> uint i - 2 ^ 64" by simp
    with u have "sint i < 0" by linarith
    with assms show False by contradiction
  qed
  moreover have "(0 :: int) \<le> 2 ^ 63" by simp
  then have "- (2 ^ 63) \<le> uint i" using uint_ge_0 [of i] by linarith
  ultimately have "signed_take_bit 63 (uint i) = uint i"
    by (intro signed_take_bit_int_eq_self)
  with s show ?thesis by simp
qed

lemma index_out_of_range:
  assumes "length signers \<le> unat (i :: 64 word)"
  shows "sint i < 0 \<or> int (length signers) \<le> sint i"
proof (cases "sint i < 0")
  case True
  then show ?thesis by simp
next
  case False
  from assms have "int (length signers) \<le> uint i"
    by (metis uint_nat of_nat_le_iff)
  with sint_nonneg_uint [OF False] show ?thesis by simp
qed

lemma DecodeTransaction_panics:
  assumes d: "decodeTransaction bs = Inr c"
      and sg: "sg \<in> set (tcPayloadSignatures c) \<union> set (tcEnvelopeSignatures c)"
      and i: "length (signerList (payloadTransaction (tcPayload c))) \<le> unat (scSignerIndex sg)"
  shows "DecodeTransaction bs = Inl (Panic IndexOutOfRange)"
proof -
  let ?signers = "signerList (payloadTransaction (tcPayload c))"
  from index_out_of_range [OF i]
  have bad: "sint (scSignerIndex sg) < 0 \<or> int (length ?signers) \<le> sint (scSignerIndex sg)" .
  show ?thesis
  proof (cases "sg \<in> set (tcPayloadSignatures c)")
    case True
    with bad have "resolveSignatures ?signers (tcPayloadSignatures c) = Inl IndexOutOfRange"
      unfolding resolveSignatures_Inl by blast
    moreover from True have "0 < length (tcPayloadSignatures c)" by (cases "tcPayloadSignatures c") auto
    ultimately show ?thesis
      unfolding payloadTransaction_built d by (simp add: Let_def bindE_def)
  next
    case False
    with sg have e: "sg \<in> set (tcEnvelopeSignatures c)" by simp
    with bad have r: "resolveSignatures ?signers (tcEnvelopeSignatures c) = Inl IndexOutOfRange"
      unfolding resolveSignatures_Inl by blast
    from e have l: "0 < length (tcEnvelopeSignatures c)" by (cases "tcEnvelopeSignatures c") auto
    show ?thesis
    proof (cases "resolveSignatures ?signers (tcPayloadSignatures c)")
      case (Inl p)
      then have "resolveSignatures ?signers (tcPayloadSignatures c) = Inl IndexOutOfRange"
        by (cases p) simp
      then show ?thesis
        unfolding payloadTransaction_built d using r l
        by (simp add: Let_def bindE_def)
    next
      case (Inr sgs)
      then show ?thesis
        unfolding payloadTransaction_built d using r l
        by (simp add: Let_def bindE_def)
    qed
  qed
qed








lemma tx_newline_arg_eq: "tx_newline_arg = NewTransaction\<lparr>Arguments := [[0x7B, 10]]\<rparr>"
  by (simp add: tx_newline_arg_def AddRawArgument_def NewTransaction_def)

lemma PayloadMessage_tx_newline_arg:
  "PayloadMessage tx_newline_arg
     = Inr (payload_newline_arg, tx_newline_arg\<lparr>Arguments := [[0x7B]]\<rparr>)"
  unfolding tx_newline_arg_eq
  by (simp add: PayloadMessage_def NewTransaction_def payload_newline_arg_def
        encode_eval_sig encodeUint_small putint_small
        DefaultTransactionGasLimit_def EmptyAddress_bytes replicate_32)

lemma wellFormed_tx_newline_arg: "wellFormed tx_newline_arg"
  by (simp add: tx_newline_arg_eq wellFormed_def NewTransaction_def EmptyAddress_def)

text \<open>
  Claim C8 fails as stated: the argument of this transaction ends in a newline;
  \<open>PayloadMessage\<close> returns bytes, and \<open>DecodeTransaction\<close> yields from them the
  argument without the newline, not the argument of the transaction. For a transaction
  with an empty argument \<open>PayloadMessage\<close> panics and returns no bytes.
\<close>

theorem PayloadMessage_DecodeTransaction_counterexample:
  "Arguments tx_newline_arg = [[0x7B, 10]]
   \<and> PayloadMessage tx_newline_arg
       = Inr (payload_newline_arg, tx_newline_arg\<lparr>Arguments := [[0x7B]]\<rparr>)
   \<and> DecodeTransaction payload_newline_arg = Inr (tx_newline_arg\<lparr>Arguments := [[0x7B]]\<rparr>)
   \<and> PayloadMessage tx_empty_arg = Inl IndexOutOfRange"
proof -
  have l: "length payload_newline_arg < 2 ^ 64"
    by (simp add: payload_newline_arg_def)
  from PayloadMessage_decoded(1) [OF PayloadMessage_tx_newline_arg l wellFormed_tx_newline_arg]
  have "DecodeTransaction payload_newline_arg = Inr (tx_newline_arg\<lparr>Arguments := [[0x7B]]\<rparr>)"
    by (simp add: tx_newline_arg_eq NewTransaction_def)
  moreover have "PayloadMessage tx_empty_arg = Inl IndexOutOfRange"
    by (simp add: PayloadMessage_def payloadCanonicalForm_def tx_empty_arg_def
          AddRawArgument_def NewTransaction_def)
  ultimately show ?thesis
    by (simp add: PayloadMessage_tx_newline_arg) (simp add: tx_newline_arg_eq)
qed

section \<open>Signer indices out of range\<close>




text \<open>
  Claim C3 against the code. Whenever the message decodes to a canonical form in which
  some payload or envelope signature has a signer index with no entry in the signer
  list derived from the payload, \<open>DecodeTransaction\<close> panics with an index out of
  range: it returns no error.
\<close>

theorem DecodeTransaction_signer_index_out_of_range:
  assumes "decodeTransaction bs = Inr c"
      and "sg \<in> set (tcPayloadSignatures c) \<union> set (tcEnvelopeSignatures c)"
      and "length (signerList (payloadTransaction (tcPayload c))) \<le> unat (scSignerIndex sg)"
  shows "DecodeTransaction bs = Inl (Panic IndexOutOfRange)"
  using assms by (rule DecodeTransaction_panics)

lemma decodeTransaction_msg_no_signer:
  "decodeTransaction msg_no_signer =
     Inr \<lparr>tcPayload = emptyPayload,
          tcPayloadSignatures = [\<lparr>scSignerIndex = 0, scKeyIndex = 0, scSignature = []\<rparr>],
          tcEnvelopeSignatures = []\<rparr>"
  by code_simp

theorem DecodeTransaction_signer_index_out_of_range_witness:
  "decodeTransaction msg_no_signer =
     Inr \<lparr>tcPayload = emptyPayload,
          tcPayloadSignatures = [\<lparr>scSignerIndex = 0, scKeyIndex = 0, scSignature = []\<rparr>],
          tcEnvelopeSignatures = []\<rparr>
   \<and> signerList (payloadTransaction emptyPayload) = []
   \<and> DecodeTransaction msg_no_signer = Inl (Panic IndexOutOfRange)"
proof -
  have s: "signerList (payloadTransaction emptyPayload) = []"
    by (simp add: emptyPayload_def payloadTransaction_def signerList_def BytesToAddress_def
          EmptyAddress_def)
  from DecodeTransaction_signer_index_out_of_range [OF decodeTransaction_msg_no_signer,
         of "\<lparr>scSignerIndex = 0, scKeyIndex = 0, scSignature = []\<rparr>"]
  have "DecodeTransaction msg_no_signer = Inl (Panic IndexOutOfRange)"
    by (simp add: s)
  with s decodeTransaction_msg_no_signer show ?thesis by simp
qed

section \<open>Order of the signatures\<close>

text \<open>
  An insertion leaves the sequence it inserts into sorted, whichever procedure stands
  for \<open>sort.Slice\<close> as long as it returns a sorted rearrangement of its input (as
  \<open>insertionSort\<close> does), provided the cached signer indices of that sequence were
  current before the call, as they are after every setter and every insertion.
\<close>

lemma compareSignatures_key:
  "compareSignatures a b =
     (sint (SignerIndex a) < sint (SignerIndex b)
      \<or> sint (SignerIndex a) = sint (SignerIndex b) \<and> sint (KeyIndex a) < sint (KeyIndex b))"
  by (auto simp: compareSignatures_def word_eq_iff_signed [where 'a = int])

lemma set_moveLeft: "set (moveLeft lt x ys) = insert x (set ys)"
  by (induction ys) auto

lemma moveLeft_descending:
  assumes "sorted_wrt (\<lambda>a b. \<not> compareSignatures a b) ys"
  shows "sorted_wrt (\<lambda>a b. \<not> compareSignatures a b) (moveLeft compareSignatures x ys)"
  using assms
proof (induction ys)
  case Nil
  then show ?case by simp
next
  case (Cons y ys)
  then show ?case
    by (auto simp: set_moveLeft compareSignatures_key)
qed

lemma foldl_moveLeft_descending:
  "sorted_wrt (\<lambda>a b. \<not> compareSignatures a b) acc \<Longrightarrow>
     sorted_wrt (\<lambda>a b. \<not> compareSignatures a b)
       (foldl (\<lambda>sorted x. moveLeft compareSignatures x sorted) acc xs)"
  by (induction xs arbitrary: acc) (simp_all add: moveLeft_descending)

lemma count_list_moveLeft:
  "count_list (moveLeft lt x ys) z = count_list (x # ys) z"
  by (induction ys) auto

lemma count_list_foldl_moveLeft:
  "count_list (foldl (\<lambda>sorted x. moveLeft lt x sorted) acc xs) z
     = count_list acc z + count_list xs z"
  by (induction xs arbitrary: acc) (auto simp: count_list_moveLeft)

lemma sortsSignatures_insertionSort: "sortsSignatures insertionSort"
  unfolding sortsSignatures_def
proof (intro allI conjI)
  fix xs
  show "sortedSignatures (insertionSort compareSignatures xs)"
    using foldl_moveLeft_descending [of "[]" xs]
    by (simp add: sortedSignatures_def insertionSort_def sorted_wrt_rev sigLeq_def [abs_def])
next
  fix xs :: "TransactionSignature list" and x
  show "count_list (insertionSort compareSignatures xs) x = count_list xs x"
    by (simp add: insertionSort_def count_list_foldl_moveLeft)
qed

lemma sortsSignatures_sorted:
  "sortsSignatures sortSlice \<Longrightarrow> sortedSignatures (sortSlice compareSignatures xs)"
  by (simp add: sortsSignatures_def)

lemma sortsSignatures_set:
  assumes "sortsSignatures sortSlice"
  shows "set (sortSlice compareSignatures xs) = set xs"
proof -
  from assms have "count_list (sortSlice compareSignatures xs) x = count_list xs x" for x
    by (simp add: sortsSignatures_def)
  then have "(x \<notin> set (sortSlice compareSignatures xs)) = (x \<notin> set xs)" for x
    by (simp flip: count_list_0_iff)
  then show ?thesis by blast
qed

lemma signerMap_cong: "signerList t' = signerList t \<Longrightarrow> signerMap t' = signerMap t"
  by (simp add: signerMap_def)

lemma refreshSignerIndex_current:
  assumes "sg \<in> set (PayloadSignatures (refreshSignerIndex t))
                \<union> set (EnvelopeSignatures (refreshSignerIndex t))"
  shows "SignerIndex sg = lookupSignerIndex (signerMap (refreshSignerIndex t)) (Address sg)"
proof -
  have "signerMap (refreshSignerIndex t) = signerMap t"
    by (rule signerMap_cong, rule signerList_cong) simp_all
  with assms show ?thesis
    by (auto simp: refreshSignerIndex_def Let_def)
qed


lemma AddPayloadSignature_sorted:
  assumes srt: "sortsSignatures sortSlice"
      and "\<forall>sg \<in> set (PayloadSignatures t).
             SignerIndex sg = lookupSignerIndex (signerMap t) (Address sg)"
  shows "sortedSignatures (PayloadSignatures (AddPayloadSignature sortSlice address keyIndex sig t))"
proof -
  define s where "s = createSignature t address keyIndex sig"
  define sorted where "sorted = sortSlice compareSignatures (PayloadSignatures t @ [s])"
  define t1 where "t1 = t\<lparr>PayloadSignatures := sorted\<rparr>"
  have m: "signerMap t1 = signerMap t"
    by (rule signerMap_cong, rule signerList_cong) (simp_all add: t1_def)
  have cur: "SignerIndex sg = lookupSignerIndex (signerMap t) (Address sg)" if "sg \<in> set sorted" for sg
    using that assms by (auto simp: sorted_def sortsSignatures_set s_def createSignature_def)
  have "map (\<lambda>sg. sg\<lparr>SignerIndex := lookupSignerIndex (signerMap t) (Address sg)\<rparr>) sorted = sorted"
    by (rule map_idI) (simp add: cur [symmetric])
  then have "PayloadSignatures (AddPayloadSignature sortSlice address keyIndex sig t) = sorted"
    unfolding AddPayloadSignature_def Let_def s_def [symmetric] sorted_def [symmetric]
      t1_def [symmetric]
    by (simp add: refreshSignerIndex_def m Let_def) (simp add: t1_def)
  then show ?thesis by (simp add: sorted_def sortsSignatures_sorted [OF srt])
qed

lemma AddEnvelopeSignature_sorted:
  assumes srt: "sortsSignatures sortSlice"
      and "\<forall>sg \<in> set (EnvelopeSignatures t).
             SignerIndex sg = lookupSignerIndex (signerMap t) (Address sg)"
  shows "sortedSignatures (EnvelopeSignatures (AddEnvelopeSignature sortSlice address keyIndex sig t))"
proof -
  define s where "s = createSignature t address keyIndex sig"
  define sorted where "sorted = sortSlice compareSignatures (EnvelopeSignatures t @ [s])"
  define t1 where "t1 = t\<lparr>EnvelopeSignatures := sorted\<rparr>"
  have m: "signerMap t1 = signerMap t"
    by (rule signerMap_cong, rule signerList_cong) (simp_all add: t1_def)
  have cur: "SignerIndex sg = lookupSignerIndex (signerMap t) (Address sg)" if "sg \<in> set sorted" for sg
    using that assms by (auto simp: sorted_def sortsSignatures_set s_def createSignature_def)
  have "map (\<lambda>sg. sg\<lparr>SignerIndex := lookupSignerIndex (signerMap t) (Address sg)\<rparr>) sorted = sorted"
    by (rule map_idI) (simp add: cur [symmetric])
  then have "EnvelopeSignatures (AddEnvelopeSignature sortSlice address keyIndex sig t) = sorted"
    unfolding AddEnvelopeSignature_def Let_def s_def [symmetric] sorted_def [symmetric]
      t1_def [symmetric]
    by (simp add: refreshSignerIndex_def m Let_def) (simp add: t1_def)
  then show ?thesis by (simp add: sorted_def sortsSignatures_sorted [OF srt])
qed

text \<open>
  A cached index that agrees with \<open>signerMap\<close> is current in the sense of the round
  trips when the signature's address is a signer.
\<close>

lemma sint_of_nat_64:
  assumes "i < 2 ^ 63"
  shows "sint (of_nat i :: 64 word) = int i"
proof -
  have "sint (of_nat i :: 64 word) = signed_take_bit 63 (int i)"
    by (simp add: signed_of_nat)
  also have "\<dots> = int i"
  proof (rule signed_take_bit_int_eq_self)
    have "(0 :: int) \<le> 2 ^ 63" by simp
    then show "- (2 ^ 63) \<le> int i" by linarith
    from assms show "int i < 2 ^ 63" by (metis of_nat_less_iff of_nat_numeral of_nat_power)
  qed
  finally show ?thesis .
qed

lemma signer_signature_current:
  assumes c: "SignerIndex sg = lookupSignerIndex (signerMap t) (Address sg)"
      and a: "Address sg \<in> set (signerList t)"
      and l: "length (signerList t) < 2 ^ 63"
  shows "signerIndexCurrent t sg"
proof -
  from a obtain i where i: "i < length (signerList t)" "signerList t ! i = Address sg"
    by (auto simp: in_set_conv_nth)
  with signerMap_nth [of i t] c have "SignerIndex sg = of_nat i"
    by (simp add: lookupSignerIndex_def)
  moreover from i l have "i < 2 ^ 63" by simp
  ultimately have "sint (SignerIndex sg) = int i" by (simp add: sint_of_nat_64)
  with i show ?thesis by (simp add: signerIndexCurrent_def)
qed

text \<open>
  Claim C5 against the code. After two insertions the payload signatures are sorted by
  (SignerIndex, KeyIndex); \<open>SetPayer\<close> then re-derives the signer indices and leaves the
  sequence in its old order, which is no longer sorted.
\<close>

theorem setter_leaves_signatures_unsorted:
  "sortedSignatures (PayloadSignatures tx_before_reindex)
   \<and> map SignerIndex (PayloadSignatures tx_before_reindex) = [0, 1]
   \<and> tx_reindexed = SetPayer addrB tx_before_reindex
   \<and> signerList tx_reindexed = [addrB, addrA]
   \<and> map Address (PayloadSignatures tx_reindexed) = [addrA, addrB]
   \<and> map SignerIndex (PayloadSignatures tx_reindexed) = [1, 0]
   \<and> \<not> sortedSignatures (PayloadSignatures tx_reindexed)"
  by code_simp

end
